theory Spec2Isabelle
  imports Main
begin

section \<open>Python values and exceptions\<close>

text \<open>
  The exceptions that the modelled code can raise. A function that may raise returns
  \<open>error + 'a\<close>, with \<open>Inl\<close> carrying the exception, and \<open>bindE\<close> sequences two such
  computations the way consecutive Python statements do.
\<close>

datatype error = TypeError | KeyError | IndexError | ValueError | PDBError
  | AttributeError | FileExistsError | FileNotFoundError

definition bindE :: "error + 'a \<Rightarrow> ('a \<Rightarrow> error + 'b) \<Rightarrow> error + 'b" where
  "bindE x f = (case x of Inl e \<Rightarrow> Inl e | Inr v \<Rightarrow> f v)"

fun mapE :: "('a \<Rightarrow> error + 'b) \<Rightarrow> 'a list \<Rightarrow> error + 'b list" where
  "mapE f [] = Inr []"
| "mapE f (x # xs) = bindE (f x) (\<lambda>y. bindE (mapE f xs) (\<lambda>ys. Inr (y # ys)))"

text \<open>
  The attributes \<open>error\<close> and \<open>output\<close> of an executor hold \<open>None\<close> or the text captured
  from the external process; \<open>truthy\<close> is Python's truth value and \<open>py_str\<close> is \<open>str()\<close>.
\<close>

datatype pyval = PNone | PStr string | PBool bool

fun truthy :: "pyval \<Rightarrow> bool" where
  "truthy PNone = False"
| "truthy (PStr s) = (s \<noteq> [])"
| "truthy (PBool b) = b"

fun py_str :: "pyval \<Rightarrow> string" where
  "py_str PNone = ''None''"
| "py_str (PStr s) = s"
| "py_str (PBool b) = (if b then ''True'' else ''False'')"

text \<open>Python's \<open>a or b\<close>: the first operand when it is truthy, the second otherwise.\<close>

definition py_or :: "pyval \<Rightarrow> pyval \<Rightarrow> pyval" where
  "py_or a b = (if truthy a then a else b)"

text \<open>
  Indexing \<open>xs[i]\<close> and \<open>xs[-1]\<close> raise \<open>IndexError\<close> outside the list; the slice
  \<open>xs[i:j]\<close> never raises; \<open>xs[-n:]\<close> keeps the last \<open>n\<close> elements; \<open>list.remove\<close> deletes
  the first occurrence and raises \<open>ValueError\<close> when there is none. All indices that the
  modelled code computes are positions counted from the front, hence natural numbers.
\<close>

definition py_index :: "'a list \<Rightarrow> nat \<Rightarrow> error + 'a" where
  "py_index xs i = (if i < length xs then Inr (xs ! i) else Inl IndexError)"

definition py_last :: "'a list \<Rightarrow> error + 'a" where
  "py_last xs = (if xs = [] then Inl IndexError else Inr (last xs))"

definition py_slice :: "'a list \<Rightarrow> nat \<Rightarrow> nat \<Rightarrow> 'a list" where
  "py_slice xs i j = take (j - i) (drop i xs)"

definition last_n :: "nat \<Rightarrow> 'a list \<Rightarrow> 'a list" where
  "last_n n xs = drop (length xs - n) xs"

fun py_remove :: "nat list \<Rightarrow> nat \<Rightarrow> error + nat list" where
  "py_remove [] x = Inl ValueError"
| "py_remove (y # ys) x = (if y = x then Inr ys else bindE (py_remove ys x) (\<lambda>zs. Inr (y # zs)))"

text \<open>
  Strings. \<open>py_in p s\<close> is \<open>p in s\<close>. The patterns handed to \<open>re.search\<close> and
  \<open>re.finditer\<close> are residue sequences, which consist of letters, so a pattern matches
  literally. \<open>finditer p s\<close> lists the start positions of the matches in the order the
  iterator yields them: scanning resumes behind the end of the previous match, so matches do
  not overlap (\<open>k\<close> counts the characters still covered by the last match).
\<close>

definition starts_with :: "'a list \<Rightarrow> 'a list \<Rightarrow> bool" where
  "starts_with p s = (take (length p) s = p)"

fun py_in :: "string \<Rightarrow> string \<Rightarrow> bool" where
  "py_in p [] = (p = [])"
| "py_in p (c # s) = (starts_with p (c # s) \<or> py_in p s)"

fun scan_matches :: "string \<Rightarrow> nat \<Rightarrow> nat \<Rightarrow> string \<Rightarrow> nat list" where
  "scan_matches p k i [] = (if k = 0 \<and> p = [] then [i] else [])"
| "scan_matches p k i (c # s) =
     (if k = 0 \<and> starts_with p (c # s)
      then i # scan_matches p (length p - 1) (Suc i) s
      else scan_matches p (k - 1) (Suc i) s)"

definition finditer :: "string \<Rightarrow> string \<Rightarrow> nat list" where
  "finditer p s = scan_matches p 0 0 s"

definition re_search :: "string \<Rightarrow> string \<Rightarrow> bool" where
  "re_search p s = (finditer p s \<noteq> [])"

text \<open>
  \<open>str(i)\<close> for a loop counter, \<open>s * n\<close>, and the operator \<open>fmt % args\<close> for format
  strings whose only directive is \<open>%s\<close>: too few or too many arguments raise \<open>TypeError\<close>,
  any other directive \<open>ValueError\<close>.
\<close>

definition digit :: "nat \<Rightarrow> char" where
  "digit n = char_of (48 + n)"

fun py_str_nat :: "nat \<Rightarrow> string" where
  "py_str_nat n = (if n < 10 then [digit n] else py_str_nat (n div 10) @ [digit (n mod 10)])"


fun py_format :: "string \<Rightarrow> string list \<Rightarrow> error + string" where
  "py_format [] [] = Inr []"
| "py_format [] (a # args) = Inl TypeError"
| "py_format (c # fmt) args =
     (if c = CHR ''%''
      then (case fmt of
              [] \<Rightarrow> Inl ValueError
            | d # fmt' \<Rightarrow>
                if d = CHR ''s''
                then (case args of
                        [] \<Rightarrow> Inl TypeError
                      | a # args' \<Rightarrow> bindE (py_format fmt' args') (\<lambda>r. Inr (a @ r)))
                else Inl ValueError)
      else bindE (py_format fmt args) (\<lambda>r. Inr (c # r)))"

text \<open>
  \<open>os.path.join\<close> of two components, and \<open>numpy.all(a == b)\<close> for two coordinate arrays
  of shapes \<open>(k, 3)\<close> and \<open>(l, 3)\<close>: equal lengths compare row by row, a single row is
  broadcast against the other array, and any other pair of shapes does not compare equal.
\<close>

definition os_path_join :: "string \<Rightarrow> string \<Rightarrow> string" where
  "os_path_join a b =
     (if starts_with ''/'' b then b
      else if a = [] \<or> last a = CHR ''/'' then a @ b
      else a @ ''/'' @ b)"

section \<open>The structure library: \<open>PDBModel\<close>\<close>

text \<open>
  The wrappers work on \<open>biskit.PDBModel\<close> objects, which belong to an external library. A
  model is an array of atoms with their coordinates, cut into residues and chains by the
  index arrays \<open>resIndex\<close> and \<open>chainIndex\<close> (the position of the first atom of every
  residue and chain). The embedding stores the same information as nested lists: a model
  is a list of chains, a chain a list of residues, a residue its one-letter name (what
  \<open>sequence()\<close> reports for it), its number and the coordinates of its atoms. Coordinates
  are only ever compared, so they are integer triples (thousandths of an Angstrom, the
  resolution of a PDB file). The flat atom array, the index arrays and the atom index
  lists that the source passes around are computed from the nested lists below.

  The library operations are modelled by their documented effect on this structure.
  Labels that no operation of the wrappers reads (atom names, serial numbers) are left
  out, and so are failures that depend on them or on limits inside the library.
\<close>

type_synonym xyz = "int \<times> int \<times> int"

record residue =
  res_name :: char
  res_number :: int
  atoms :: "xyz list"

record chain =
  chain_id :: string
  residues :: "residue list"

record PDBModel =
  chains :: "chain list"
  source :: "string option"

text \<open>\<open>B.PDBModel()\<close>, a model without atoms.\<close>

definition empty_model :: PDBModel where
  "empty_model = \<lparr>chains = [], source = None\<rparr>"

definition all_residues :: "PDBModel \<Rightarrow> residue list" where
  "all_residues m = concat (map residues (chains m))"

definition sequence :: "PDBModel \<Rightarrow> string" where
  "sequence m = map res_name (all_residues m)"

text \<open>The coordinate array \<open>m.xyz\<close>, one row per atom.\<close>

definition xyz_of :: "PDBModel \<Rightarrow> xyz list" where
  "xyz_of m = concat (map atoms (all_residues m))"

definition lenChains :: "PDBModel \<Rightarrow> nat" where
  "lenChains m = length (chains m)"

definition lenResidues :: "PDBModel \<Rightarrow> nat" where
  "lenResidues m = length (all_residues m)"

definition lenAtoms :: "PDBModel \<Rightarrow> nat" where
  "lenAtoms m = length (xyz_of m)"

definition np_all_eq :: "xyz list \<Rightarrow> xyz list \<Rightarrow> bool" where
  "np_all_eq a b =
     (if length a = length b then a = b
      else if length a = 1 then list_all (\<lambda>x. x = a ! 0) b
      else if length b = 1 then list_all (\<lambda>x. x = b ! 0) a
      else False)"

text \<open>
  \<open>offsets k ns\<close> are the start positions of consecutive blocks of the lengths \<open>ns\<close>,
  the first one at \<open>k\<close>.
\<close>

fun offsets :: "nat \<Rightarrow> nat list \<Rightarrow> nat list" where
  "offsets k [] = []"
| "offsets k (n # ns) = k # offsets (k + n) ns"

definition resIndex :: "PDBModel \<Rightarrow> nat list" where
  "resIndex m = offsets 0 (map (\<lambda>r. length (atoms r)) (all_residues m))"

definition chain_atoms :: "chain \<Rightarrow> xyz list" where
  "chain_atoms c = concat (map atoms (residues c))"

definition chainIndex :: "PDBModel \<Rightarrow> nat list" where
  "chainIndex m = offsets 0 (map (\<lambda>c. length (chain_atoms c)) (chains m))"

text \<open>
  The atom table. \<open>res_rows\<close> lists the residues of a model, each tagged with the number
  and the identifier of its chain; \<open>atom_rows\<close> lists the atoms, each tagged with the
  number of its residue (the library's \<open>resMap\<close>), the tag of its chain (\<open>chainMap\<close> and
  the \<open>chain_id\<close> profile) and the residue's name and number.
\<close>

type_synonym chain_key = "nat \<times> string"
type_synonym res_key = "nat \<times> chain_key \<times> char \<times> int"

definition res_rows :: "PDBModel \<Rightarrow> (chain_key \<times> residue) list" where
  "res_rows m = concat (map (\<lambda>(c, ch). map (\<lambda>r. ((c, chain_id ch), r)) (residues ch))
                     (enumerate 0 (chains m)))"

definition atom_rows :: "PDBModel \<Rightarrow> (res_key \<times> xyz) list" where
  "atom_rows m = concat (map (\<lambda>(i, (ck, r)). map (\<lambda>a. ((i, ck, res_name r, res_number r), a)) (atoms r))
                     (enumerate 0 (res_rows m)))"

definition chainMap :: "PDBModel \<Rightarrow> nat list" where
  "chainMap m = map (\<lambda>((i, (c, cid), nm, num), a). c) (atom_rows m)"

text \<open>
  \<open>m.take(i)\<close> copies the atoms at the positions \<open>i\<close> into a new model. Neighbouring
  atoms stay in one residue when they come from the same residue of \<open>m\<close>, and neighbouring
  residues stay in one chain when they come from the same chain: \<open>group_adj\<close> collects
  runs of equal tags. The source of the model is kept. A position outside the atom array
  raises \<open>IndexError\<close>.
\<close>

fun group_adj :: "('k \<times> 'v) list \<Rightarrow> ('k \<times> 'v list) list" where
  "group_adj [] = []"
| "group_adj ((k, v) # xs) =
     (case group_adj xs of
        [] \<Rightarrow> [(k, [v])]
      | (k', vs) # gs \<Rightarrow> if k = k' then (k, v # vs) # gs else (k, [v]) # (k', vs) # gs)"

definition rows_to_chains :: "(res_key \<times> xyz) list \<Rightarrow> chain list" where
  "rows_to_chains rows =
     map (\<lambda>((c, cid), rs). \<lparr>chain_id = cid, residues = rs\<rparr>)
       (group_adj (map (\<lambda>((i, ck, nm, num), as). (ck, \<lparr>res_name = nm, res_number = num, atoms = as\<rparr>))
                    (group_adj rows)))"

definition take_m :: "PDBModel \<Rightarrow> nat list \<Rightarrow> error + PDBModel" where
  "take_m m idx =
     (if \<forall>i \<in> set idx. i < lenAtoms m
      then Inr \<lparr>chains = rows_to_chains (map (\<lambda>i. atom_rows m ! i) idx), source = source m\<rparr>
      else Inl IndexError)"

text \<open>
  \<open>res2atomIndices\<close> and \<open>chain2atomIndices\<close> turn residue and chain positions into the
  positions of their atoms (\<open>PDBError\<close> for a position that does not exist);
  \<open>atom2chainIndices\<close> gives the chains that the listed atoms lie in, without repeating a
  chain for neighbouring atoms; \<open>takeResidues\<close> and \<open>takeChains\<close> copy whole residues
  and chains.
\<close>

definition res2atomIndices :: "PDBModel \<Rightarrow> nat list \<Rightarrow> error + nat list" where
  "res2atomIndices m rs =
     (if \<forall>r \<in> set rs. r < lenResidues m
      then Inr (concat (map (\<lambda>r. [resIndex m ! r ..< resIndex m ! r + length (atoms (all_residues m ! r))]) rs))
      else Inl PDBError)"

definition chain2atomIndices :: "PDBModel \<Rightarrow> nat list \<Rightarrow> error + nat list" where
  "chain2atomIndices m cs =
     (if \<forall>c \<in> set cs. c < lenChains m
      then Inr (concat (map (\<lambda>c. [chainIndex m ! c ..< chainIndex m ! c + length (chain_atoms (chains m ! c))]) cs))
      else Inl PDBError)"

definition atom2chainIndices :: "PDBModel \<Rightarrow> nat list \<Rightarrow> error + nat list" where
  "atom2chainIndices m idx =
     (if \<forall>i \<in> set idx. i < lenAtoms m
      then Inr (remdups_adj (map (\<lambda>i. chainMap m ! i) idx))
      else Inl IndexError)"

definition takeResidues :: "PDBModel \<Rightarrow> nat list \<Rightarrow> error + PDBModel" where
  "takeResidues m rs = bindE (res2atomIndices m rs) (take_m m)"

definition takeChains :: "PDBModel \<Rightarrow> nat list \<Rightarrow> error + PDBModel" where
  "takeChains m cs = bindE (chain2atomIndices m cs) (take_m m)"

text \<open>
  \<open>a.concat(b, c, ...)\<close> appends the atoms of the other models; the chains of every
  model stay chains of their own, and the source is lost. \<open>m.remove(i)\<close> deletes the atoms
  at the positions \<open>i\<close> in place, that is, it keeps the others. \<open>m.mergeChains(c)\<close> erases
  the boundary between chain \<open>c\<close> and the next one; the merged chain carries the
  identifier of the first. \<open>renumberResidues\<close> numbers the residues consecutively from 1
  and \<open>addChainId\<close> names the chains with consecutive capital letters. The methods that
  the library runs in place return the new state of the object here.
\<close>

definition concat2 :: "PDBModel \<Rightarrow> PDBModel \<Rightarrow> PDBModel" where
  "concat2 a b = \<lparr>chains = chains a @ chains b, source = None\<rparr>"

fun concat_m :: "PDBModel \<Rightarrow> PDBModel list \<Rightarrow> PDBModel" where
  "concat_m m [] = m"
| "concat_m m (x # xs) = concat_m (concat2 m x) xs"

definition remove_m :: "PDBModel \<Rightarrow> nat list \<Rightarrow> error + PDBModel" where
  "remove_m m idx =
     (if \<forall>i \<in> set idx. i < lenAtoms m
      then take_m m (filter (\<lambda>i. i \<notin> set idx) [0 ..< lenAtoms m])
      else Inl IndexError)"

definition mergeChains :: "PDBModel \<Rightarrow> nat \<Rightarrow> error + PDBModel" where
  "mergeChains m c =
     (if c + 1 < lenChains m
      then Inr (m\<lparr>chains := take c (chains m)
                  @ [\<lparr>chain_id = chain_id (chains m ! c),
                       residues = residues (chains m ! c) @ residues (chains m ! (c + 1))\<rparr>]
                  @ drop (c + 2) (chains m)\<rparr>)
      else Inl PDBError)"

fun number_chains :: "int \<Rightarrow> chain list \<Rightarrow> chain list" where
  "number_chains k [] = []"
| "number_chains k (c # cs) =
     c\<lparr>residues := map (\<lambda>(i, r). r\<lparr>res_number := k + int i\<rparr>) (enumerate 0 (residues c))\<rparr>
       # number_chains (k + int (length (residues c))) cs"

definition renumberResidues :: "PDBModel \<Rightarrow> PDBModel" where
  "renumberResidues m = m\<lparr>chains := number_chains 1 (chains m)\<rparr>"

definition chain_letter :: "nat \<Rightarrow> string" where
  "chain_letter k = [char_of (65 + k)]"

definition addChainId :: "PDBModel \<Rightarrow> PDBModel" where
  "addChainId m = m\<lparr>chains := map (\<lambda>(k, c). c\<lparr>chain_id := chain_letter k\<rparr>) (enumerate 0 (chains m))\<rparr>"

text \<open>
  \<open>m.maskFrom('chain_id', v)\<close> marks the atoms whose chain identifier is \<open>v\<close>, and
  \<open>numpy.nonzero\<close> lists the marked positions.
\<close>

definition maskFrom_chain_id :: "PDBModel \<Rightarrow> string \<Rightarrow> bool list" where
  "maskFrom_chain_id m v = map (\<lambda>((i, (c, cid), nm, num), a). cid = v) (atom_rows m)"

definition nonzero :: "bool list \<Rightarrow> nat list" where
  "nonzero msk = filter (\<lambda>i. msk ! i) [0 ..< length msk]"

text \<open>
  A model is truthy when it has atoms (\<open>PDBModel\<close> has a length, the number of its
  atoms); \<open>None\<close> is falsy.
\<close>

definition model_truthy :: "PDBModel option \<Rightarrow> bool" where
  "model_truthy x = (case x of None \<Rightarrow> False | Some m \<Rightarrow> lenAtoms m \<noteq> 0)"

section \<open>Ranch: embedding and extraction\<close>

text \<open>
  \<^verbatim>\<open>
  def embed(cls, dom, to_embed):
     first = dom.take(dom.res2atomIndices([0,1]))
     last = dom.take(dom.res2atomIndices(list(range(2,dom.lenResidues()))))
     return first.concat(to_embed,last)
  \<close>
\<close>

definition embed :: "PDBModel \<Rightarrow> PDBModel \<Rightarrow> error + PDBModel" where
  "embed dm to_embed =
     bindE (res2atomIndices dm [0, 1]) (\<lambda>i_first.
     bindE (take_m dm i_first) (\<lambda>first.
     bindE (res2atomIndices dm [2 ..< lenResidues dm]) (\<lambda>i_last.
     bindE (take_m dm i_last) (\<lambda>last.
     Inr (concat_m first [to_embed, last])))))"

text \<open>
  \<open>extract_fixed(dom, full)\<close>. The inner loop over the matches of one chain of \<open>dom\<close>:
  \<^verbatim>\<open>
  for match in matches:
     index = match.start()
     first_res_full = full.res2atomIndices([index])
     lowfull = first_res_full[0]
     highfull = first_res_full[-1]
     if N.all(m.xyz[lowm:highm+1] == full.xyz[lowfull:highfull+1]):
        chain_ind = full.atom2chainIndices(first_res_full)
        chains_to_take.remove(chain_ind[0])
        break
  \<close>
\<close>

fun try_matches ::
  "PDBModel \<Rightarrow> PDBModel \<Rightarrow> nat \<Rightarrow> nat \<Rightarrow> nat list \<Rightarrow> nat list \<Rightarrow> error + nat list" where
  "try_matches m full lowm highm [] chains_to_take = Inr chains_to_take"
| "try_matches m full lowm highm (index # matches) chains_to_take =
     bindE (res2atomIndices full [index]) (\<lambda>first_res_full.
     bindE (py_index first_res_full 0) (\<lambda>lowfull.
     bindE (py_last first_res_full) (\<lambda>highfull.
       if np_all_eq (py_slice (xyz_of m) lowm (highm + 1))
                    (py_slice (xyz_of full) lowfull (highfull + 1))
       then bindE (atom2chainIndices full first_res_full) (\<lambda>chain_ind.
            bindE (py_index chain_ind 0) (\<lambda>c. py_remove chains_to_take c))
       else try_matches m full lowm highm matches chains_to_take)))"

text \<open>
  The outer loop over the chains of \<open>dom\<close>:
  \<^verbatim>\<open>
  for m in doms:
     start = m.sequence()[:10]
     if re.search(start, full.sequence()):
        matches = re.finditer(start, full.sequence())
        first_res_m = m.res2atomIndices([0])
        lowm = first_res_m[0]
        highm = first_res_m[-1]
        for match in matches: ...
  \<close>
\<close>

fun match_doms :: "PDBModel \<Rightarrow> PDBModel list \<Rightarrow> nat list \<Rightarrow> error + nat list" where
  "match_doms full [] chains_to_take = Inr chains_to_take"
| "match_doms full (m # doms) chains_to_take =
     (let start = take 10 (sequence m) in
      if re_search start (sequence full)
      then bindE (res2atomIndices m [0]) (\<lambda>first_res_m.
           bindE (py_index first_res_m 0) (\<lambda>lowm.
           bindE (py_last first_res_m) (\<lambda>highm.
           bindE (try_matches m full lowm highm (finditer start (sequence full)) chains_to_take)
             (\<lambda>chains_to_take'. match_doms full doms chains_to_take'))))
      else match_doms full doms chains_to_take)"

text \<open>
  \<^verbatim>\<open>
  chains_to_take = list(range(full.lenChains()))
  doms = [dom.takeChains([i]) for i in range(dom.lenChains())]
  for m in doms: ...
  full = full.takeChains(chains_to_take)
  return full
  \<close>
\<close>

definition extract_fixed :: "PDBModel \<Rightarrow> PDBModel \<Rightarrow> error + PDBModel" where
  "extract_fixed dm full =
     bindE (mapE (\<lambda>i. takeChains dm [i]) [0 ..< lenChains dm]) (\<lambda>doms.
     bindE (match_doms full doms [0 ..< lenChains full]) (\<lambda>chains_to_take.
     takeChains full chains_to_take))"

text \<open>
  \<open>extract_embedded(full, embedded)\<close>. The dictionary \<open>embedded\<close> is keyed by model
  objects, so it is the list of its items in insertion order. The first loop checks every
  entry and collects the embedded residues in \<open>r\<close>:
  \<^verbatim>\<open>
  for dom, i_start in embedded.items():
     i_end = i_start + len(dom.sequence())
     if full.sequence()[i_start:i_end] == dom.sequence():
        r = r.concat(full.takeResidues(list(range(i_start, i_end))))
        emb_ind.append((i_start, i_end))
     else:
        raise TypeError('Problem with the embedded sequence/index')
  \<close>
\<close>

fun collect_embedded ::
  "PDBModel \<Rightarrow> (PDBModel \<times> nat) list \<Rightarrow> PDBModel \<Rightarrow> (nat \<times> nat) list
     \<Rightarrow> error + (PDBModel \<times> (nat \<times> nat) list)" where
  "collect_embedded full [] r emb_ind = Inr (r, emb_ind)"
| "collect_embedded full ((dm, i_start) # rest) r emb_ind =
     (let i_end = i_start + length (sequence dm) in
      if py_slice (sequence full) i_start i_end = sequence dm
      then bindE (takeResidues full [i_start ..< i_end]) (\<lambda>t.
             collect_embedded full rest (concat_m r [t]) (emb_ind @ [(i_start, i_end)]))
      else Inl TypeError)"

text \<open>
  \<open>sorted(emb_ind, key=itemgetter(0), reverse=True)\<close>: descending in the first
  component, entries with equal keys in their original order.
\<close>

definition sorted_reverse :: "(nat \<times> nat) list \<Rightarrow> (nat \<times> nat) list" where
  "sorted_reverse xs = rev (sort_key fst (rev xs))"

text \<open>
  The second and third loop change \<open>full\<close> in place; they return the state of the object
  together with the exception, if one was raised.
  \<^verbatim>\<open>
  for i_start, i_end in emb_ind:
     atomi_start = full.resIndex()[i_start]
     atomi_end = full.resIndex()[i_end]
     full.remove(list(range(atomi_start, atomi_end)))

  for i in range(full.lenChains()-1):
     full.mergeChains(0)
  \<close>
\<close>

fun remove_embedded :: "PDBModel \<Rightarrow> (nat \<times> nat) list \<Rightarrow> PDBModel \<times> error option" where
  "remove_embedded full [] = (full, None)"
| "remove_embedded full ((i_start, i_end) # rest) =
     (case py_index (resIndex full) i_start of
        Inl e \<Rightarrow> (full, Some e)
      | Inr atomi_start \<Rightarrow>
          (case py_index (resIndex full) i_end of
             Inl e \<Rightarrow> (full, Some e)
           | Inr atomi_end \<Rightarrow>
               (case remove_m full [atomi_start ..< atomi_end] of
                  Inl e \<Rightarrow> (full, Some e)
                | Inr full' \<Rightarrow> remove_embedded full' rest)))"

fun merge_all :: "nat \<Rightarrow> PDBModel \<Rightarrow> PDBModel \<times> error option" where
  "merge_all 0 full = (full, None)"
| "merge_all (Suc n) full =
     (case mergeChains full 0 of Inl e \<Rightarrow> (full, Some e) | Inr full' \<Rightarrow> merge_all n full')"

text \<open>
  The whole method. The first component of the result is the state in which the call
  leaves the object that was passed as \<open>full\<close>; the second is the exception or the
  returned model (a new object, since \<open>full = full.concat(r)\<close> rebinds the name).
  \<^verbatim>\<open>
  r = B.PDBModel()
  emb_ind = []
  ...
  full.renumberResidues()
  full = full.concat(r)
  full.addChainId()
  full['serial_number'] = N0.arange(1,len(full)+1)
  return full
  \<close>
\<close>

definition extract_embedded ::
  "PDBModel \<Rightarrow> (PDBModel \<times> nat) list \<Rightarrow> PDBModel \<times> (error + PDBModel)" where
  "extract_embedded full embedded =
     (case collect_embedded full embedded empty_model [] of
        Inl e \<Rightarrow> (full, Inl e)
      | Inr (r, emb_ind) \<Rightarrow>
          (case remove_embedded full (sorted_reverse emb_ind) of
             (full1, Some e) \<Rightarrow> (full1, Inl e)
           | (full1, None) \<Rightarrow>
               (case merge_all (lenChains full1 - 1) full1 of
                  (full2, Some e) \<Rightarrow> (full2, Inl e)
                | (full2, None) \<Rightarrow>
                    (let full3 = renumberResidues full2
                     in (full3, Inr (addChainId (concat_m full3 [r])))))))"

text \<open>
  \<^verbatim>\<open>
  if re.search(symseq, full.sequence()):
     matches = re.finditer(symseq, full.sequence())
     for match in matches:
        istart, iend = match.span()
        symunit = full.takeResidues(list(range(istart, iend)))
        symunits.append(Ranch.extract_embedded(symunit, embedded))
     r = symunits[0]
     for i in range(1,len(symunits)):
        r = r.concat(symunits[i])
     r.addChainId()
     r['serial_number'] = N0.arange(1,len(r)+1)
  else:
     raise TypeError("Symseq and full.sequence() don't match")
  return r
  \<close>
\<close>

definition extract_symmetric ::
  "PDBModel \<Rightarrow> string \<Rightarrow> (PDBModel \<times> nat) list \<Rightarrow> error + PDBModel" where
  "extract_symmetric full symseq embedded =
     (if re_search symseq (sequence full)
      then bindE (mapE (\<lambda>istart.
                    bindE (takeResidues full [istart ..< istart + length symseq]) (\<lambda>symunit.
                    snd (extract_embedded symunit embedded)))
                  (finditer symseq (sequence full))) (\<lambda>symunits.
           bindE (py_index symunits 0) (\<lambda>r.
           Inr (addChainId (concat_m r (drop 1 symunits)))))
      else Inl TypeError)"

section \<open>The file system\<close>

text \<open>
  A file system is a list of paths with what they hold; a path that was written again
  shadows its older entry. \<open>tryRemove(p, tree=True)\<close> deletes \<open>p\<close> and everything below
  it. \<open>tempfile.mkdtemp(suffix, prefix, dir)\<close> draws candidate names from the sequence
  \<open>names\<close> of random names until \<open>dir/prefix+name+suffix\<close> does not exist, creates that
  directory and returns its path together with the rest of the name sequence; it raises
  \<open>FileExistsError\<close> when the candidates run out and \<open>FileNotFoundError\<close> when \<open>dir\<close> is
  no directory.
\<close>

datatype entry = Dir | PdbFile PDBModel | TextFile string

type_synonym filesystem = "(string \<times> entry) list"

definition exists_path :: "filesystem \<Rightarrow> string \<Rightarrow> bool" where
  "exists_path fs p = (map_of fs p \<noteq> None)"

definition fs_write :: "filesystem \<Rightarrow> string \<Rightarrow> entry \<Rightarrow> filesystem" where
  "fs_write fs p e = (p, e) # fs"

definition tryRemove_tree :: "filesystem \<Rightarrow> string \<Rightarrow> filesystem" where
  "tryRemove_tree fs p = filter (\<lambda>(q, e). q \<noteq> p \<and> \<not> starts_with (p @ ''/'') q) fs"

fun mkdtemp ::
  "string list \<Rightarrow> string \<Rightarrow> string \<Rightarrow> string \<Rightarrow> filesystem
     \<Rightarrow> string list \<times> filesystem \<times> (error + string)" where
  "mkdtemp [] suffix prefix dir fs = ([], fs, Inl FileExistsError)"
| "mkdtemp (name # names) suffix prefix dir fs =
     (let file = dir @ ''/'' @ prefix @ name @ suffix in
      if exists_path fs file then mkdtemp names suffix prefix dir fs
      else if map_of fs dir = Some Dir then (names, fs_write fs file Dir, Inr file)
      else (names, fs, Inl FileNotFoundError))"

section \<open>Ranch: the wrapper object\<close>

text \<open>
  The positional arguments \<open>*domains\<close> are strings (linker sequences), models, or
  anything else. A model argument carries the identity of its object, because the
  dictionary \<open>chains\<close> is keyed by the objects and \<open>element == self.symtemplate\<close> compares
  them. An entry of \<open>chains\<close> is one chain identifier or a list (or tuple) of them.
\<close>

datatype chain_spec = ChainId string | ChainList "string list"

datatype domain = Str string | Model nat PDBModel | Other

record ranch =
  self_domains :: "domain list"
  self_chains :: "nat \<Rightarrow> chain_spec option"
  self_sequence :: string
  self_symmetry :: string
  self_symtemplate :: "(nat \<times> PDBModel) option"
  self_doms_in :: "PDBModel list"
  self_pdbs_in :: "string list"
  self_embedded :: "(PDBModel \<times> nat) list"
  self_overall_sym :: string
  self_fixed :: "string list"
  self_multich :: "string list"
  self_symunit :: "PDBModel option"
  self_symseq :: "string option"
  self_dir_models :: string
  self_f_seq :: string
  self_tempdir :: string
  self_debug :: bool
  self_args :: string
  self_result :: "PDBModel list option"
  self_error :: pyval
  self_output :: pyval

text \<open>
  Steps 8 and 9 of \<open>_setup\<close> share their body: find the chain with the identifier
  \<open>chain_id\<close>, take it, embed the rest of the element into it, and record where the
  embedded part starts.
  \<^verbatim>\<open>
  mask_chain = element.maskFrom('chain_id', chain_id)
  i_mask_chain = N.nonzero(mask_chain)[0]
  chain_ind = element.atom2chainIndices(i_mask_chain)[0]
  m = element.takeChains([chain_ind])
  to_embed = Ranch.extract_fixed(m, element)
  m_emb = Ranch.embed(m, to_embed)
  self.embedded[to_embed] = len(self.sequence) + 2
  self.sequence += m_emb.sequence()
  self.doms_in.append(m_emb)
  \<close>
\<close>

definition setup_embed :: "ranch \<Rightarrow> PDBModel \<Rightarrow> string \<Rightarrow> error + ranch" where
  "setup_embed st element cid =
     (let mask_chain = maskFrom_chain_id element cid;
          i_mask_chain = nonzero mask_chain in
      bindE (atom2chainIndices element i_mask_chain) (\<lambda>chain_inds.
      bindE (py_index chain_inds 0) (\<lambda>chain_ind.
      bindE (takeChains element [chain_ind]) (\<lambda>m.
      bindE (extract_fixed m element) (\<lambda>to_embed.
      bindE (embed m to_embed) (\<lambda>m_emb.
      Inr (st\<lparr>self_embedded := self_embedded st @ [(to_embed, length (self_sequence st) + 2)],
              self_sequence := self_sequence st @ sequence m_emb,
              self_doms_in := self_doms_in st @ [m_emb]\<rparr>)))))))"

text \<open>\<open>self.sequence += s; self.doms_in.append(element)\<close>\<close>

definition setup_add :: "ranch \<Rightarrow> string \<Rightarrow> PDBModel \<Rightarrow> ranch" where
  "setup_add st s element =
     st\<lparr>self_sequence := self_sequence st @ s, self_doms_in := self_doms_in st @ [element]\<rparr>"

text \<open>
  The loop of \<open>_setup\<close> over \<open>self.domains\<close>, with the counter \<open>i\<close> of the models seen
  so far (a string does not advance it):
  \<^verbatim>\<open>
  for element in self.domains:
     if isinstance(element, str):
        self.sequence += element
        continue
     elif isinstance(element, B.PDBModel):
        if self.multich[i]=='yes':
           self.sequence += self.symunit.sequence()
           self.doms_in.append(element)
        elif element.lenChains()==1 or self.fixed[i] == 'yes':
           self.sequence += element.sequence()
           self.doms_in.append(element)
        else:
           if isinstance(self.chains[element], (list, tuple)):
              chain_id = self.chains[element][0]
              ...
              break
           else:
              chain_id = self.chains[element]
              ...
     else:
        raise TypeError(
           'The *domains arguments must be either strings or PDBModels.')
     i += 1
  \<close>
\<close>

fun setup_loop :: "ranch \<Rightarrow> nat \<Rightarrow> domain list \<Rightarrow> error + ranch" where
  "setup_loop st i [] = Inr st"
| "setup_loop st i (Str s # rest) =
     setup_loop (st\<lparr>self_sequence := self_sequence st @ s\<rparr>) i rest"
| "setup_loop st i (Other # rest) = Inl TypeError"
| "setup_loop st i (Model oid element # rest) =
     bindE (py_index (self_multich st) i) (\<lambda>mc.
       if mc = ''yes''
       then (case self_symunit st of
               None \<Rightarrow> Inl AttributeError
             | Some symunit \<Rightarrow> setup_loop (setup_add st (sequence symunit) element) (Suc i) rest)
       else if lenChains element = 1
       then setup_loop (setup_add st (sequence element) element) (Suc i) rest
       else bindE (py_index (self_fixed st) i) (\<lambda>fx.
         if fx = ''yes''
         then setup_loop (setup_add st (sequence element) element) (Suc i) rest
         else (case self_chains st oid of
                 None \<Rightarrow> Inl KeyError
               | Some (ChainList ids) \<Rightarrow>
                   bindE (py_index ids 0) (\<lambda>cid. setup_embed st element cid)
               | Some (ChainId cid) \<Rightarrow>
                   bindE (setup_embed st element cid) (\<lambda>st'. setup_loop st' (Suc i) rest))))"

text \<open>
  \<^verbatim>\<open>
  if self.symtemplate:
     self.symseq = self.sequence
  \<close>
\<close>

definition Ranch_setup :: "ranch \<Rightarrow> error + ranch" where
  "Ranch_setup st =
     bindE (setup_loop st 0 (self_domains st)) (\<lambda>st'.
       Inr (if model_truthy (map_option snd (self_symtemplate st'))
            then st'\<lparr>self_symseq := Some (self_sequence st')\<rparr> else st'))"

text \<open>
  The constructor. \<open>names\<close> is the sequence of random names that \<open>tempfile\<close> draws from
  and \<open>tempDir\<close> the temporary folder of the library (\<open>t.tempDir()\<close>). The result holds the
  rest of the names, the file system after the call and the exception or the new object.
  \<^verbatim>\<open>
  tempdir = tempfile.mkdtemp( '', self.__class__.__name__.lower() + '_', t.tempDir() )
  self.dir_models = tempfile.mkdtemp( '', 'models_', tempdir )
  self.f_seq = tempdir + '/sequence.seq'
  ...
  overall_symmetry = { 'mixed' : 'm', 'symmetry' : 's', 'asymmetry' : 'a', }
  self.overall_sym = overall_symmetry[overall_sym]
  if fixed:
     self.fixed = fixed
  else:
     self.fixed = []
     for element in self.domains:
        if isinstance(element, B.PDBModel):
           self.fixed.append('no')
  if multich:
     self.multich = multich
  else:
     self.multich = []
     for element in self.domains:
        if isinstance(element, B.PDBModel):
           if element == self.symtemplate:
              self.multich.append('yes')
           else:
              self.multich.append('no')
  if symtemplate:
     if symunit:
        self.symunit = symunit
     else:
        self.symunit = symtemplate.takeChains([0])
  self._setup()
  Executor.__init__(self, 'ranch', tempdir=tempdir, cwd=tempdir, debug=debug)
  \<close>
\<close>

definition overall_symmetry :: "string \<Rightarrow> error + string" where
  "overall_symmetry k =
     (if k = ''mixed'' then Inr ''m''
      else if k = ''symmetry'' then Inr ''s''
      else if k = ''asymmetry'' then Inr ''a''
      else Inl KeyError)"

definition list_or :: "'a list option \<Rightarrow> 'a list \<Rightarrow> 'a list" where
  "list_or x d = (case x of None \<Rightarrow> d | Some l \<Rightarrow> if l \<noteq> [] then l else d)"

definition is_PDBModel :: "domain \<Rightarrow> bool" where
  "is_PDBModel d = (case d of Model oid m \<Rightarrow> True | _ \<Rightarrow> False)"

definition default_fixed :: "domain list \<Rightarrow> string list" where
  "default_fixed ds = map (\<lambda>d. ''no'') (filter is_PDBModel ds)"

definition default_multich :: "domain list \<Rightarrow> (nat \<times> PDBModel) option \<Rightarrow> string list" where
  "default_multich ds symtemplate =
     map (\<lambda>d. case d of Model oid m \<Rightarrow>
                  (if map_option fst symtemplate = Some oid then ''yes'' else ''no'')
              | _ \<Rightarrow> ''no'')
       (filter is_PDBModel ds)"

definition Ranch_init ::
  "string list \<Rightarrow> string \<Rightarrow> filesystem \<Rightarrow> domain list \<Rightarrow> (nat \<Rightarrow> chain_spec option) \<Rightarrow> string
     \<Rightarrow> (nat \<times> PDBModel) option \<Rightarrow> PDBModel option \<Rightarrow> string \<Rightarrow> string list option
     \<Rightarrow> string list option \<Rightarrow> bool \<Rightarrow> string list \<times> filesystem \<times> (error + ranch)" where
  "Ranch_init names tempDir fs domains chs symmetry symtemplate symunit overall_sym fixed multich debug =
     (case mkdtemp names [] ''ranch_'' tempDir fs of
        (names1, fs1, Inl e) \<Rightarrow> (names1, fs1, Inl e)
      | (names1, fs1, Inr tempdir) \<Rightarrow>
     (case mkdtemp names1 [] ''models_'' tempdir fs1 of
        (names2, fs2, Inl e) \<Rightarrow> (names2, fs2, Inl e)
      | (names2, fs2, Inr dir_models) \<Rightarrow>
          (names2, fs2,
           bindE (overall_symmetry overall_sym) (\<lambda>code.
           bindE (case symtemplate of
                    None \<Rightarrow> Inr None
                  | Some (oid, template) \<Rightarrow>
                      if lenAtoms template = 0 then Inr None
                      else if model_truthy symunit then Inr symunit
                      else bindE (takeChains template [0]) (\<lambda>u. Inr (Some u))) (\<lambda>symunit'.
           bindE (Ranch_setup
                   \<lparr>self_domains = domains, self_chains = chs, self_sequence = [],
                    self_symmetry = symmetry, self_symtemplate = symtemplate,
                    self_doms_in = [], self_pdbs_in = [], self_embedded = [],
                    self_overall_sym = code,
                    self_fixed = list_or fixed (default_fixed domains),
                    self_multich = list_or multich (default_multich domains symtemplate),
                    self_symunit = symunit', self_symseq = None,
                    self_dir_models = dir_models, self_f_seq = tempdir @ ''/sequence.seq'',
                    self_tempdir = tempdir, self_debug = debug, self_args = [],
                    self_result = None, self_error = PNone, self_output = PNone\<rparr>) Inr)))))"

text \<open>
  \<open>prepare\<close> writes the input files and builds the argument string.
  \<^verbatim>\<open>
  for i in range(len(self.doms_in)):
     pdb_name = self.tempdir + '/' + str(i) + '_'
     if self.doms_in[i].validSource() == None:
        pdb_name += '.pdb'
     else:
        pdb_name += self.doms_in[i].sourceFile()[-8:]
     self.pdbs_in.append(pdb_name)
     self.doms_in[i].writePdb(pdb_name)
  with open(self.f_seq, 'w') as f:
     f.write(self.sequence)
  self.args = self.f_seq + ' -q=10 -i'
  self.args = self.args + ' -s=%s -y=%s' % (self.symmetry, self.overall_sym)
  self.args = self.args + ' -x=%s' * len(self.pdbs_in) % tuple(self.pdbs_in)
  self.args = self.args + ' -f=%s' * len(self.fixed) % tuple(self.fixed)
  self.args = self.args + ' -o=%s' * len(self.multich) % tuple(self.multich)
  self.args = self.args + ' -w=%s' % self.dir_models
  \<close>
\<close>

definition pdb_name :: "ranch \<Rightarrow> nat \<Rightarrow> string" where
  "pdb_name st i =
     self_tempdir st @ ''/'' @ py_str_nat i @ ''_'' @
       (case source (self_doms_in st ! i) of None \<Rightarrow> ''.pdb'' | Some f \<Rightarrow> last_n 8 f)"



text \<open>\<^verbatim>\<open>return self.error or 'Problems' in str(self.output)\<close>\<close>

definition isFailed :: "ranch \<Rightarrow> pyval" where
  "isFailed st = py_or (self_error st) (PBool (py_in ''Problems'' (py_str (self_output st))))"

text \<open>
  \<open>finish\<close> reads the models that the external program has written. \<open>listdir\<close> is what
  \<open>os.listdir(self.dir_models)\<close> returns and \<open>load\<close> is the parser \<open>B.PDBModel(path)\<close>.
  \<^verbatim>\<open>
  m_paths = [self.dir_models + '/' + f for f in os.listdir(self.dir_models)]
  if self.symtemplate:
     self.result = [Ranch.extract_symmetric(B.PDBModel(m), self.symseq,
        self.embedded) for m in m_paths]
  else:
     self.result = [Ranch.extract_embedded(B.PDBModel(m), self.embedded
        ) for m in m_paths]
  \<close>
\<close>

definition finish_symmetric :: "(string \<Rightarrow> error + PDBModel) \<Rightarrow> ranch \<Rightarrow> string \<Rightarrow> error + PDBModel" where
  "finish_symmetric load st m =
     bindE (load m) (\<lambda>model.
       case self_symseq st of
         None \<Rightarrow> Inl AttributeError
       | Some symseq \<Rightarrow> extract_symmetric model symseq (self_embedded st))"

definition finish_embedded :: "(string \<Rightarrow> error + PDBModel) \<Rightarrow> ranch \<Rightarrow> string \<Rightarrow> error + PDBModel" where
  "finish_embedded load st m =
     bindE (load m) (\<lambda>model. snd (extract_embedded model (self_embedded st)))"

definition Ranch_finish ::
  "string list \<Rightarrow> (string \<Rightarrow> error + PDBModel) \<Rightarrow> ranch \<Rightarrow> error + ranch" where
  "Ranch_finish listdir load st =
     (let m_paths = map (\<lambda>f. self_dir_models st @ ''/'' @ f) listdir in
      bindE (if model_truthy (map_option snd (self_symtemplate st))
             then mapE (finish_symmetric load st) m_paths
             else mapE (finish_embedded load st) m_paths) (\<lambda>r.
      Inr (st\<lparr>self_result := Some r\<rparr>)))"

text \<open>
  \<open>cleanup\<close>. The method of the base class, which \<open>Ranch.cleanup\<close> calls last, deletes
  the files of the run unless \<open>debug\<close> is set; they all lie in the temporary folder.
  \<^verbatim>\<open>
  if not self.debug:
     t.tryRemove(self.tempdir, tree=True)
  super().cleanup()
  \<close>
\<close>

definition Executor_cleanup :: "ranch \<Rightarrow> filesystem \<Rightarrow> filesystem" where
  "Executor_cleanup st fs = (if self_debug st then fs else tryRemove_tree fs (self_tempdir st))"

definition Ranch_cleanup :: "ranch \<Rightarrow> filesystem \<Rightarrow> filesystem" where
  "Ranch_cleanup st fs =
     Executor_cleanup st (if \<not> self_debug st then tryRemove_tree fs (self_tempdir st) else fs)"

section \<open>Pulchra\<close>

text \<open>
  \<^verbatim>\<open>
  def __init__(self, model, **kw):
      self.model = model
      tempdir = tempfile.mkdtemp('', self.__class__.__name__.lower() + '_', T.tempDir())
      pdb_path = os.path.join(tempdir, 'model.pdb')
      self.rb_path = pdb_path[:-3]+'rebuilt.pdb'
      self.model.writePdb(pdb_path)
      self.configpath = [os.path.join(os.path.abspath(
          os.path.dirname(__file__)), 'exeConfig/')]
      super().__init__('pulchra', tempdir=tempdir, configpath=self.configpath,
          args=pdb_path, **kw)

  def finish(self):
      rebuilt = B.PDBModel(self.rb_path)
      rebuilt.renumberResidues()
      self.result = rebuilt

  def cleanup(self):
      if not self.debug:
          T.tryRemove(self.tempdir, tree=True)
  \<close>
  \<open>here\<close> is the folder of the module and \<open>debug\<close> the keyword argument that the base
  class stores.
\<close>

record pulchra =
  p_model :: PDBModel
  p_rb_path :: string
  p_configpath :: "string list"
  p_tempdir :: string
  p_args :: string
  p_debug :: bool
  p_result :: "PDBModel option"

definition Pulchra_init ::
  "string list \<Rightarrow> string \<Rightarrow> string \<Rightarrow> filesystem \<Rightarrow> PDBModel \<Rightarrow> bool
     \<Rightarrow> string list \<times> filesystem \<times> (error + pulchra)" where
  "Pulchra_init names tempDir here fs model debug =
     (case mkdtemp names [] ''pulchra_'' tempDir fs of
        (names1, fs1, Inl e) \<Rightarrow> (names1, fs1, Inl e)
      | (names1, fs1, Inr tempdir) \<Rightarrow>
          (let pdb_path = os_path_join tempdir ''model.pdb'';
               rb_path = take (length pdb_path - 3) pdb_path @ ''rebuilt.pdb''
           in (names1, fs_write fs1 pdb_path (PdbFile model),
               Inr \<lparr>p_model = model, p_rb_path = rb_path,
                    p_configpath = [os_path_join here ''exeConfig/''],
                    p_tempdir = tempdir, p_args = pdb_path, p_debug = debug,
                    p_result = None\<rparr>)))"

definition Pulchra_finish :: "(string \<Rightarrow> error + PDBModel) \<Rightarrow> pulchra \<Rightarrow> error + pulchra" where
  "Pulchra_finish load st =
     bindE (load (p_rb_path st)) (\<lambda>rebuilt.
     Inr (st\<lparr>p_result := Some (renumberResidues rebuilt)\<rparr>))"

definition Pulchra_cleanup :: "pulchra \<Rightarrow> filesystem \<Rightarrow> filesystem" where
  "Pulchra_cleanup st fs = (if \<not> p_debug st then tryRemove_tree fs (p_tempdir st) else fs)"

section \<open>Notions used in the proofs\<close>

text \<open>
  A model is well formed when no chain is without residues and no residue without
  atoms: the library only knows a residue or a chain through its atoms. \<open>expand\<close> is the
  inverse of \<open>group_adj\<close>; \<open>offs xss r\<close> is where block \<open>r\<close> starts in \<open>concat xss\<close>;
  \<open>chG\<close> and \<open>resG\<close> are the chains and residues of a model as tagged groups.
\<close>

definition wf_model :: "PDBModel \<Rightarrow> bool" where
  "wf_model m = (\<forall>c \<in> set (chains m). residues c \<noteq> [] \<and> (\<forall>r \<in> set (residues c). atoms r \<noteq> []))"

definition expand :: "('k \<times> 'v list) list \<Rightarrow> ('k \<times> 'v) list" where
  "expand gs = concat (map (\<lambda>(k, vs). map (Pair k) vs) gs)"

definition offs :: "'a list list \<Rightarrow> nat \<Rightarrow> nat" where
  "offs xss r = sum_list (map length (take r xss))"

definition blocks :: "('k \<times> 'v list) list \<Rightarrow> ('k \<times> 'v) list list" where
  "blocks gs = map (\<lambda>(k, vs). map (Pair k) vs) gs"

definition chG :: "PDBModel \<Rightarrow> (chain_key \<times> residue list) list" where
  "chG m = map (\<lambda>(c, ch). ((c, chain_id ch), residues ch)) (enumerate 0 (chains m))"

definition resG :: "PDBModel \<Rightarrow> (res_key \<times> xyz list) list" where
  "resG m = map (\<lambda>(i, (ck, r)). ((i, ck, res_name r, res_number r), atoms r)) (enumerate 0 (res_rows m))"

definition mk_chain :: "chain_key \<times> residue list \<Rightarrow> chain" where
  "mk_chain = (\<lambda>((c, cid), rs). \<lparr>chain_id = cid, residues = rs\<rparr>)"

definition mk_res :: "res_key \<times> xyz list \<Rightarrow> chain_key \<times> residue" where
  "mk_res = (\<lambda>((i, ck, nm, num), as). (ck, \<lparr>res_name = nm, res_number = num, atoms = as\<rparr>))"

text \<open>
  \<open>frame st st'\<close>: the object \<open>st'\<close> differs from \<open>st\<close> at most in the three attributes
  that \<open>_setup\<close> writes in its loop.
\<close>

definition frame :: "ranch \<Rightarrow> ranch \<Rightarrow> bool" where
  "frame st st' =
     (st' = st\<lparr>self_sequence := self_sequence st', self_doms_in := self_doms_in st',
               self_embedded := self_embedded st'\<rparr>)"

section \<open>Basic facts\<close>

lemma bindE_Inr_iff: "bindE x f = Inr y \<longleftrightarrow> (\<exists>v. x = Inr v \<and> f v = Inr y)"
  by (cases x) (auto simp: bindE_def)

lemma bindE_Inl [simp]: "bindE (Inl e) f = Inl e"
  by (simp add: bindE_def)

lemma bindE_Inr [simp]: "bindE (Inr v) f = f v"
  by (simp add: bindE_def)

lemma py_in_iff: "py_in p s \<longleftrightarrow> (\<exists>u v. s = u @ p @ v)"
proof (induction s)
  case Nil
  then show ?case by auto
next
  case (Cons c s)
  note IH = Cons.IH
  have a: "starts_with p (c # s) \<longleftrightarrow> (\<exists>v. c # s = p @ v)"
    unfolding starts_with_def
    by (metis append_eq_conv_conj)
  show ?case
  proof
    assume "py_in p (c # s)"
    then consider "starts_with p (c # s)" | "py_in p s" by auto
    then show "\<exists>u v. c # s = u @ p @ v"
    proof cases
      case 1
      then obtain v where "c # s = p @ v" using a by blast
      then have "c # s = [] @ p @ v" by simp
      then show ?thesis by blast
    next
      case 2
      then obtain u v where "s = u @ p @ v" using IH by blast
      then have "c # s = (c # u) @ p @ v" by simp
      then show ?thesis by blast
    qed
  next
    assume "\<exists>u v. c # s = u @ p @ v"
    then obtain u v where uv: "c # s = u @ p @ v" by blast
    show "py_in p (c # s)"
    proof (cases u)
      case Nil
      then have "starts_with p (c # s)" using uv a by auto
      then show ?thesis by simp
    next
      case (Cons d u')
      then have "s = u' @ p @ v" using uv by simp
      then have "py_in p s" using IH by blast
      then show ?thesis by simp
    qed
  qed
qed

text \<open>
  C3. \<open>Ranch.isFailed\<close> is true exactly when the error attribute of the base class is set
  (truthy) or the text \<open>Problems\<close> occurs somewhere in \<open>str(output)\<close>; in particular it is
  false when the error attribute is unset and \<open>Problems\<close> is no substring of the output.
\<close>

theorem isFailed_iff:
  "truthy (isFailed st) \<longleftrightarrow>
     (truthy (self_error st) \<or> (\<exists>u v. py_str (self_output st) = u @ ''Problems'' @ v))"
  by (simp add: isFailed_def py_or_def py_in_iff)

section \<open>Lists, blocks and groups\<close>

lemma length_offsets [simp]: "length (offsets k ns) = length ns"
  by (induction ns arbitrary: k) auto

lemma offsets_nth: "i < length ns \<Longrightarrow> offsets k ns ! i = k + sum_list (take i ns)"
proof (induction ns arbitrary: k i)
  case Nil
  then show ?case by simp
next
  case (Cons n ns)
  then show ?case by (cases i) auto
qed

lemma concat_split_nth:
  assumes "i < length xss"
  shows "concat xss = concat (take i xss) @ xss ! i @ concat (drop (Suc i) xss)"
proof -
  have "xss = take i xss @ xss ! i # drop (Suc i) xss"
    using assms by (simp add: id_take_nth_drop)
  then have "concat xss = concat (take i xss @ xss ! i # drop (Suc i) xss)" by simp
  then show ?thesis by simp
qed

lemma concat_nth_range:
  assumes "i < length xss"
  shows "map ((!) (concat xss)) [offs xss i ..< offs xss i + length (xss ! i)] = xss ! i"
proof (rule nth_equalityI)
  show "length (map ((!) (concat xss)) [offs xss i ..< offs xss i + length (xss ! i)]) = length (xss ! i)"
    by simp
next
  fix j assume "j < length (map ((!) (concat xss)) [offs xss i ..< offs xss i + length (xss ! i)])"
  then have j: "j < length (xss ! i)" by simp
  have len: "length (concat (take i xss)) = offs xss i"
    by (simp add: offs_def length_concat)
  have "concat xss ! (offs xss i + j) = (xss ! i @ concat (drop (Suc i) xss)) ! j"
    using concat_split_nth [OF assms] len by (metis nth_append_length_plus)
  also have "\<dots> = xss ! i ! j" using j by (simp add: nth_append)
  finally show "map ((!) (concat xss)) [offs xss i ..< offs xss i + length (xss ! i)] ! j = xss ! i ! j"
    using j by simp
qed

lemma concat_nth_ranges:
  assumes "\<forall>r \<in> set rs. r < length xss"
  shows "map ((!) (concat xss)) (concat (map (\<lambda>r. [offs xss r ..< offs xss r + length (xss ! r)]) rs))
         = concat (map ((!) xss) rs)"
  using assms by (induction rs) (auto simp: concat_nth_range)

lemma group_adj_same:
  assumes "vs \<noteq> []" and "group_adj rest = gs" and "gs = [] \<or> fst (hd gs) \<noteq> k"
  shows "group_adj (map (Pair k) vs @ rest) = (k, vs) # gs"
  using assms(1)
proof (induction vs)
  case Nil
  then show ?case by simp
next
  case (Cons v vs)
  show ?case
  proof (cases "vs = []")
    case True
    then show ?thesis using assms(2,3) by (cases gs) (auto split: list.splits)
  next
    case False
    then have "group_adj (map (Pair k) vs @ rest) = (k, vs) # gs" using Cons.IH by simp
    then show ?thesis by simp
  qed
qed

lemma group_adj_expand:
  assumes "\<forall>g \<in> set gs. snd g \<noteq> []" and "distinct_adj (map fst gs)"
  shows "group_adj (expand gs) = gs"
  using assms
proof (induction gs)
  case Nil
  then show ?case by (simp add: expand_def)
next
  case (Cons g gs)
  obtain k vs where g: "g = (k, vs)" by (cases g)
  note prems2 = Cons.prems(2)
  have d: "distinct_adj (map fst gs)"
    using Cons.prems(2) by (cases gs) simp_all
  have n: "\<forall>g \<in> set gs. snd g \<noteq> []"
    using Cons.prems(1) by simp
  have ih: "group_adj (expand gs) = gs"
    using Cons.IH [OF n d] .
  have hd: "gs = [] \<or> fst (hd gs) \<noteq> k"
  proof (cases gs)
    case Nil
    then show ?thesis by simp
  next
    case (Cons h hs)
    then show ?thesis using prems2 g by auto
  qed
  have "vs \<noteq> []" using Cons.prems(1) g by simp
  then have "group_adj (map (Pair k) vs @ expand gs) = (k, vs) # gs"
    using group_adj_same [OF _ ih hd] by blast
  moreover have "expand (g # gs) = map (Pair k) vs @ expand gs"
    by (simp add: expand_def g)
  ultimately show ?case by (simp add: g)
qed

lemma concat_group_adj: "concat (map snd (group_adj xs)) = map snd xs"
proof (induction xs)
  case Nil
  then show ?case by simp
next
  case (Cons x xs)
  obtain k v where x: "x = (k, v)" by (cases x)
  show ?case using Cons.IH unfolding x
    by (cases "group_adj xs") (auto split: if_splits)
qed

lemma group_adj_const:
  assumes "xs \<noteq> []" and "\<forall>x \<in> set xs. fst x = k"
  shows "group_adj xs = [(k, map snd xs)]"
  using assms
proof (induction xs)
  case Nil
  then show ?case by simp
next
  case (Cons x xs)
  obtain v where x: "x = (k, v)" using Cons.prems(2) by (cases x) auto
  show ?case
  proof (cases "xs = []")
    case True
    then show ?thesis by (simp add: x)
  next
    case False
    then have "group_adj xs = [(k, map snd xs)]" using Cons by simp
    then show ?thesis by (simp add: x)
  qed
qed

section \<open>Taking residues out of a model\<close>

lemma expand_blocks: "expand gs = concat (blocks gs)"
  by (simp add: expand_def blocks_def)

lemma res_rows_expand: "res_rows m = expand (chG m)"
  by (simp add: res_rows_def expand_def chG_def comp_def case_prod_unfold)

lemma atom_rows_expand: "atom_rows m = expand (resG m)"
  by (simp add: atom_rows_def expand_def resG_def comp_def case_prod_unfold)

lemma map_snd_expand: "map snd (expand gs) = concat (map snd gs)"
  by (induction gs) (auto simp: expand_def comp_def)

lemma map_snd_chG: "map snd (chG m) = map residues (chains m)"
  by (auto simp: chG_def enumerate_eq_zip intro!: nth_equalityI)

lemma map_snd_res_rows: "map snd (res_rows m) = all_residues m"
  by (simp add: res_rows_expand map_snd_expand map_snd_chG all_residues_def)

lemma length_res_rows [simp]: "length (res_rows m) = lenResidues m"
  using map_snd_res_rows [of m] by (metis length_map lenResidues_def)

lemma length_resG [simp]: "length (resG m) = lenResidues m"
  by (simp add: resG_def)

lemma map_snd_resG: "map snd (resG m) = map atoms (all_residues m)"
proof -
  have "map snd (resG m) = map (\<lambda>x. atoms (snd x)) (res_rows m)"
    by (auto simp: resG_def enumerate_eq_zip case_prod_unfold intro!: nth_equalityI)
  also have "\<dots> = map atoms (map snd (res_rows m))" by simp
  finally show ?thesis by (simp add: map_snd_res_rows)
qed

lemma map_snd_atom_rows: "map snd (atom_rows m) = xyz_of m"
  by (simp add: atom_rows_expand map_snd_expand map_snd_resG xyz_of_def)

lemma length_atom_rows [simp]: "length (atom_rows m) = lenAtoms m"
  using map_snd_atom_rows [of m] by (metis length_map lenAtoms_def)

lemma mk_res_resG: "r < lenResidues m \<Longrightarrow> mk_res (resG m ! r) = res_rows m ! r"
  by (cases "res_rows m ! r") (simp add: resG_def mk_res_def nth_enumerate_eq)

lemma fst_resG: "r < lenResidues m \<Longrightarrow> fst (fst (resG m ! r)) = r"
  by (simp add: resG_def nth_enumerate_eq case_prod_unfold)

lemma snd_resG: "r < lenResidues m \<Longrightarrow> snd (resG m ! r) = atoms (all_residues m ! r)"
  using map_snd_resG [of m] by (metis length_resG nth_map lenResidues_def)

lemma length_blocks [simp]: "length (blocks gs) = length gs"
  by (simp add: blocks_def)

lemma length_blocks_nth: "r < length gs \<Longrightarrow> length (blocks gs ! r) = length (snd (gs ! r))"
  by (simp add: blocks_def case_prod_unfold)

lemma map_length_blocks: "map length (blocks gs) = map (\<lambda>g. length (snd g)) gs"
  by (simp add: blocks_def case_prod_unfold comp_def)

lemma resIndex_offs: "r < lenResidues m \<Longrightarrow> resIndex m ! r = offs (blocks (resG m)) r"
proof -
  assume r: "r < lenResidues m"
  have "map length (blocks (resG m)) = map (\<lambda>r. length (atoms r)) (all_residues m)"
  proof -
    have "map (\<lambda>g. length (snd g)) (resG m) = map length (map snd (resG m))" by simp
    then show ?thesis by (simp only: map_length_blocks map_snd_resG) simp
  qed
  then have "take r (map length (blocks (resG m))) = take r (map (\<lambda>r. length (atoms r)) (all_residues m))"
    by simp
  then have "map length (take r (blocks (resG m))) = map (\<lambda>r. length (atoms r)) (take r (all_residues m))"
    by (simp only: take_map)
  then show ?thesis
    using r by (simp add: resIndex_def offsets_nth offs_def take_map lenResidues_def)
qed

lemma offs_bound:
  assumes "r < length xss"
  shows "offs xss r + length (xss ! r) \<le> length (concat xss)"
proof -
  have "length (concat xss) = length (concat (take r xss)) + length (xss ! r) + length (concat (drop (Suc r) xss))"
    using concat_split_nth [OF assms] by (metis length_append add.assoc)
  moreover have "length (concat (take r xss)) = offs xss r"
    by (simp add: offs_def length_concat)
  ultimately show ?thesis by simp
qed

lemma blocks_nth: "r < length gs \<Longrightarrow> blocks gs ! r = map (Pair (fst (gs ! r))) (snd (gs ! r))"
  by (simp add: blocks_def case_prod_unfold)

lemma concat_blocks_sel:
  assumes "\<forall>r \<in> set rs. r < length gs"
  shows "concat (map ((!) (blocks gs)) rs) = expand (map ((!) gs) rs)"
  using assms by (induction rs) (auto simp: expand_def blocks_nth case_prod_unfold)

lemma rows_to_chains_alt: "rows_to_chains rows = map mk_chain (group_adj (map mk_res (group_adj rows)))"
  by (simp add: rows_to_chains_def mk_chain_def mk_res_def)

lemma res2atomIndices_eq:
  assumes "\<forall>r \<in> set rs. r < lenResidues m"
  shows "res2atomIndices m rs =
         Inr (concat (map (\<lambda>r. [offs (blocks (resG m)) r ..< offs (blocks (resG m)) r + length (blocks (resG m) ! r)]) rs))"
proof -
  have "map (\<lambda>r. [resIndex m ! r ..< resIndex m ! r + length (atoms (all_residues m ! r))]) rs
        = map (\<lambda>r. [offs (blocks (resG m)) r ..< offs (blocks (resG m)) r + length (blocks (resG m) ! r)]) rs"
    using assms by (intro map_cong) (auto simp: resIndex_offs length_blocks_nth snd_resG)
  then show ?thesis unfolding res2atomIndices_def using assms by (simp del: map_eq_conv)
qed

lemma res2atomIndices_bound:
  assumes "res2atomIndices m rs = Inr idx" and "i \<in> set idx"
  shows "i < lenAtoms m"
proof -
  have rs: "\<forall>r \<in> set rs. r < lenResidues m"
    using assms(1) by (auto simp: res2atomIndices_def split: if_splits)
  then have "idx = concat (map (\<lambda>r. [offs (blocks (resG m)) r ..< offs (blocks (resG m)) r + length (blocks (resG m) ! r)]) rs)"
    using assms(1) res2atomIndices_eq by simp
  then obtain r where r: "r \<in> set rs" and i: "i < offs (blocks (resG m)) r + length (blocks (resG m) ! r)"
    using assms(2) by auto
  have "r < length (blocks (resG m))" using rs r by simp
  then have "offs (blocks (resG m)) r + length (blocks (resG m) ! r) \<le> length (concat (blocks (resG m)))"
    by (rule offs_bound)
  then show ?thesis using i by (simp add: atom_rows_expand [symmetric] expand_blocks [symmetric])
qed

lemma take_m_ok:
  "\<forall>i \<in> set idx. i < lenAtoms m \<Longrightarrow>
   take_m m idx = Inr \<lparr>chains = rows_to_chains (map (\<lambda>i. atom_rows m ! i) idx), source = source m\<rparr>"
  by (simp add: take_m_def)

lemma takeResidues_rows:
  assumes "\<forall>r \<in> set rs. r < lenResidues m"
  shows "takeResidues m rs =
         Inr \<lparr>chains = rows_to_chains (expand (map ((!) (resG m)) rs)), source = source m\<rparr>"
proof -
  let ?B = "blocks (resG m)"
  let ?idx = "concat (map (\<lambda>r. [offs ?B r ..< offs ?B r + length (?B ! r)]) rs)"
  have idx: "res2atomIndices m rs = Inr ?idx" using assms by (rule res2atomIndices_eq)
  have bound: "\<forall>i \<in> set ?idx. i < lenAtoms m"
    using res2atomIndices_bound [OF idx] by blast
  have "\<forall>r \<in> set rs. r < length ?B" using assms by simp
  then have "map ((!) (concat ?B)) ?idx = concat (map ((!) ?B) rs)"
    by (rule concat_nth_ranges)
  also have "\<dots> = expand (map ((!) (resG m)) rs)"
    using assms by (intro concat_blocks_sel) simp
  finally have rows: "map ((!) (atom_rows m)) ?idx = expand (map ((!) (resG m)) rs)"
    by (simp add: atom_rows_expand expand_blocks)
  have "take_m m ?idx = Inr \<lparr>chains = rows_to_chains (map (\<lambda>i. atom_rows m ! i) ?idx), source = source m\<rparr>"
    using bound by (rule take_m_ok)
  then show ?thesis
    using rows by (simp add: takeResidues_def idx bindE_def)
qed

lemma wf_atoms_nonempty:
  assumes "wf_model m" and "r < lenResidues m"
  shows "atoms (all_residues m ! r) \<noteq> []"
proof -
  have "all_residues m ! r \<in> set (all_residues m)" using assms(2) by (simp add: lenResidues_def)
  then show ?thesis using assms(1) by (auto simp: wf_model_def all_residues_def)
qed

lemma group_adj_resG_sel:
  assumes "wf_model m" and "\<forall>r \<in> set rs. r < lenResidues m" and "distinct_adj rs"
  shows "group_adj (expand (map ((!) (resG m)) rs)) = map ((!) (resG m)) rs"
proof (rule group_adj_expand)
  show "\<forall>g \<in> set (map ((!) (resG m)) rs). snd g \<noteq> []"
    using assms(1,2) by (auto simp: snd_resG wf_atoms_nonempty)
next
  have "inj_on (\<lambda>r. fst (resG m ! r)) (set rs)"
  proof (rule inj_onI)
    fix x y assume "x \<in> set rs" "y \<in> set rs" "fst (resG m ! x) = fst (resG m ! y)"
    then show "x = y" using assms(2) fst_resG by metis
  qed
  then have "distinct_adj (map (\<lambda>r. fst (resG m ! r)) rs)"
    using assms(3) by (simp add: distinct_adj_mapI)
  then show "distinct_adj (map fst (map ((!) (resG m)) rs))" by (simp add: comp_def)
qed

lemma takeResidues_eq:
  assumes "wf_model m" and "\<forall>r \<in> set rs. r < lenResidues m" and "distinct_adj rs"
  shows "takeResidues m rs =
         Inr \<lparr>chains = map mk_chain (group_adj (map ((!) (res_rows m)) rs)), source = source m\<rparr>"
proof -
  have a: "map mk_res (map ((!) (resG m)) rs) = map ((!) (res_rows m)) rs"
    using assms(2) by (simp add: mk_res_resG)
  show ?thesis
    unfolding takeResidues_rows [OF assms(2)] rows_to_chains_alt group_adj_resG_sel [OF assms] a ..
qed

section \<open>The constructor and the setup loop\<close>

lemma frame_refl [simp]: "frame st st"
  by (simp add: frame_def)

lemma frame_trans: "frame a b \<Longrightarrow> frame b c \<Longrightarrow> frame a c"
  by (cases a; cases b; cases c) (auto simp: frame_def)

lemma frame_seq [simp]: "frame st (st\<lparr>self_sequence := s\<rparr>)"
  by (simp add: frame_def)

lemma frame_add [simp]: "frame st (setup_add st s e)"
  by (simp add: frame_def setup_add_def)

lemma setup_embed_frame: "setup_embed st e cid = Inr st' \<Longrightarrow> frame st st'"
  by (auto simp: setup_embed_def Let_def bindE_Inr_iff frame_def)

lemma setup_loop_frame: "setup_loop st i ds = Inr st' \<Longrightarrow> frame st st'"
proof (induction st i ds rule: setup_loop.induct)
  case (1 st i)
  then show ?case by simp
next
  case (2 st i s rest)
  then show ?case using frame_trans frame_seq by (metis setup_loop.simps(2))
next
  case (3 st i rest)
  then show ?case by simp
next
  case (4 st i oid element rest)
  from "4.prems" obtain mc where mc: "py_index (self_multich st) i = Inr mc"
    by (auto simp: bindE_Inr_iff)
  show ?case
  proof (cases "mc = ''yes''")
    case True
    then obtain su where su: "self_symunit st = Some su"
      and r: "setup_loop (setup_add st (sequence su) element) (Suc i) rest = Inr st'"
      using "4.prems" mc by (auto split: option.splits)
    have "frame (setup_add st (sequence su) element) st'"
      using "4.IH"(1) True su r by blast
    then show ?thesis using frame_trans frame_add by blast
  next
    case ny: False
    show ?thesis
    proof (cases "lenChains element = 1")
      case True
      then have r: "setup_loop (setup_add st (sequence element) element) (Suc i) rest = Inr st'"
        using "4.prems" mc ny by simp
      have "frame (setup_add st (sequence element) element) st'"
        using "4.IH"(2) ny True r by blast
      then show ?thesis using frame_trans frame_add by blast
    next
      case n1: False
      from "4.prems" mc ny n1 obtain fx where fx: "py_index (self_fixed st) i = Inr fx"
        by (auto simp: bindE_Inr_iff)
      show ?thesis
      proof (cases "fx = ''yes''")
        case True
        then have r: "setup_loop (setup_add st (sequence element) element) (Suc i) rest = Inr st'"
          using "4.prems" mc ny n1 fx by simp
        have "frame (setup_add st (sequence element) element) st'"
          using "4.IH"(3) ny n1 True r by blast
        then show ?thesis using frame_trans frame_add by blast
      next
        case nf: False
        show ?thesis
        proof (cases "self_chains st oid")
          case None
          then show ?thesis using "4.prems" mc ny n1 fx nf by simp
        next
          case (Some spec)
          show ?thesis
          proof (cases spec)
            case (ChainId cid)
            then obtain st1 where e: "setup_embed st element cid = Inr st1"
              and r: "setup_loop st1 (Suc i) rest = Inr st'"
              using "4.prems" mc ny n1 fx nf Some by (auto simp: bindE_Inr_iff)
            have "frame st1 st'"
              using "4.IH"(4) ny n1 nf Some ChainId r by blast
            then show ?thesis using setup_embed_frame [OF e] frame_trans by blast
          next
            case (ChainList ids)
            then obtain cid where "setup_embed st element cid = Inr st'"
              using "4.prems" mc ny n1 fx nf Some by (auto simp: bindE_Inr_iff)
            then show ?thesis by (rule setup_embed_frame)
          qed
        qed
      qed
    qed
  qed
qed

lemma Ranch_setup_overall_sym:
  "Ranch_setup st = Inr st' \<Longrightarrow> self_overall_sym st' = self_overall_sym st"
proof -
  assume "Ranch_setup st = Inr st'"
  then obtain st1 where a: "setup_loop st 0 (self_domains st) = Inr st1"
    and b: "st' = (if model_truthy (map_option snd (self_symtemplate st1))
                   then st1\<lparr>self_symseq := Some (self_sequence st1)\<rparr> else st1)"
    by (auto simp: Ranch_setup_def bindE_Inr_iff)
  have "frame st st1" using a by (rule setup_loop_frame)
  then have "self_overall_sym st1 = self_overall_sym st"
    by (cases st; cases st1) (auto simp: frame_def)
  then show ?thesis using b by simp
qed

lemma setup_loop_strings:
  "setup_loop st i (map Str ss) = Inr (st\<lparr>self_sequence := self_sequence st @ concat ss\<rparr>)"
proof (induction ss arbitrary: st)
  case Nil
  then show ?case by simp
next
  case (Cons s ss)
  show ?case by (simp add: Cons.IH)
qed

lemma Ranch_init_strings:
  assumes "mkdtemp names [] ''ranch_'' tempDir fs = (names1, fs1, Inr tempdir)"
    and "mkdtemp names1 [] ''models_'' tempdir fs1 = (names2, fs2, Inr dir_models)"
    and "overall_symmetry k = Inr code"
  shows "\<exists>st. Ranch_init names tempDir fs (map Str ss) chs symmetry None symunit k fixed multich debug
               = (names2, fs2, Inr st)
             \<and> self_overall_sym st = code \<and> self_sequence st = concat ss"
  using assms
  by (simp add: Ranch_init_def Ranch_setup_def setup_loop_strings model_truthy_def)

text \<open>
  C10. When the two temporary folders have been created, \<open>Ranch.__init__\<close> raises
  \<open>KeyError\<close> for every value of \<open>overall_sym\<close> other than \<open>mixed\<close>, \<open>symmetry\<close> and
  \<open>asymmetry\<close>, whatever the domains and the other arguments are (so before any of them is
  looked at). The three values pass the lookup with the codes \<open>m\<close>, \<open>s\<close> and \<open>a\<close>: for
  each of them the constructor returns an object that stores the code when the domains are
  linker strings (so that nothing else can raise), and whenever the constructor returns,
  the object stores the code that belongs to its \<open>overall_sym\<close>.
\<close>

theorem Ranch_init_overall_sym:
  assumes "mkdtemp names [] ''ranch_'' tempDir fs = (names1, fs1, Inr tempdir)"
    and "mkdtemp names1 [] ''models_'' tempdir fs1 = (names2, fs2, Inr dir_models)"
  shows "(overall_sym \<notin> {''mixed'', ''symmetry'', ''asymmetry''} \<longrightarrow>
            Ranch_init names tempDir fs domains chs symmetry symtemplate symunit overall_sym
              fixed multich debug = (names2, fs2, Inl KeyError))
       \<and> overall_symmetry ''mixed'' = Inr ''m''
       \<and> overall_symmetry ''symmetry'' = Inr ''s''
       \<and> overall_symmetry ''asymmetry'' = Inr ''a''
       \<and> (\<forall>k code. (k, code) \<in> {(''mixed'', ''m''), (''symmetry'', ''s''), (''asymmetry'', ''a'')} \<longrightarrow>
             (\<exists>st. Ranch_init names tempDir fs (map Str ss) chs symmetry None symunit k
                      fixed multich debug = (names2, fs2, Inr st)
                   \<and> self_overall_sym st = code \<and> self_sequence st = concat ss))
       \<and> (\<forall>st. snd (snd (Ranch_init names tempDir fs domains chs symmetry symtemplate symunit
                            overall_sym fixed multich debug)) = Inr st \<longrightarrow>
              (overall_sym, self_overall_sym st)
                \<in> {(''mixed'', ''m''), (''symmetry'', ''s''), (''asymmetry'', ''a'')})"
proof (intro conjI impI allI)
  assume "overall_sym \<notin> {''mixed'', ''symmetry'', ''asymmetry''}"
  then have "overall_symmetry overall_sym = Inl KeyError"
    by (simp add: overall_symmetry_def)
  then show "Ranch_init names tempDir fs domains chs symmetry symtemplate symunit overall_sym
               fixed multich debug = (names2, fs2, Inl KeyError)"
    using assms by (simp add: Ranch_init_def)
next
  show "overall_symmetry ''mixed'' = Inr ''m''" by (simp add: overall_symmetry_def)
next
  show "overall_symmetry ''symmetry'' = Inr ''s''" by (simp add: overall_symmetry_def)
next
  show "overall_symmetry ''asymmetry'' = Inr ''a''" by (simp add: overall_symmetry_def)
next
  fix k code
  assume "(k, code) \<in> {(''mixed'', ''m''), (''symmetry'', ''s''), (''asymmetry'', ''a'')}"
  then have "overall_symmetry k = Inr code"
    by (auto simp: overall_symmetry_def)
  then show "\<exists>st. Ranch_init names tempDir fs (map Str ss) chs symmetry None symunit k
                      fixed multich debug = (names2, fs2, Inr st)
                   \<and> self_overall_sym st = code \<and> self_sequence st = concat ss"
    using Ranch_init_strings [OF assms] by blast
next
  fix st
  assume "snd (snd (Ranch_init names tempDir fs domains chs symmetry symtemplate symunit
                      overall_sym fixed multich debug)) = Inr st"
  then show "(overall_sym, self_overall_sym st)
               \<in> {(''mixed'', ''m''), (''symmetry'', ''s''), (''asymmetry'', ''a'')}"
    using assms
    by (auto simp: Ranch_init_def bindE_Inr_iff overall_symmetry_def
             dest!: Ranch_setup_overall_sym split: if_splits)
qed

theorem Ranch_init_overall_sym_witness:
  "Ranch_init [''a'', ''b''] ''/tmp'' [(''/tmp'', Dir)] [Str ''GG'', Other] (\<lambda>k. None) ''p1'' None None
     ''asym'' None None False
   = ([], [(''/tmp/ranch_a/models_b'', Dir), (''/tmp/ranch_a'', Dir), (''/tmp'', Dir)], Inl KeyError)
   \<and> (\<exists>st. Ranch_init [''a'', ''b''] ''/tmp'' [(''/tmp'', Dir)] [Str ''GG'', Str ''S''] (\<lambda>k. None)
               ''p1'' None None ''symmetry'' None None False
             = ([], [(''/tmp/ranch_a/models_b'', Dir), (''/tmp/ranch_a'', Dir), (''/tmp'', Dir)], Inr st)
           \<and> self_overall_sym st = ''s'' \<and> self_sequence st = ''GGS'')
   \<and> (\<exists>st. Ranch_init [''a'', ''b''] ''/tmp'' [(''/tmp'', Dir)] [Str ''GG'', Str ''S''] (\<lambda>k. None)
               ''p1'' None None ''asymmetry'' None None False
             = ([], [(''/tmp/ranch_a/models_b'', Dir), (''/tmp/ranch_a'', Dir), (''/tmp'', Dir)], Inr st)
           \<and> self_overall_sym st = ''a'')
   \<and> (\<exists>st. Ranch_init [''a'', ''b''] ''/tmp'' [(''/tmp'', Dir)] [Str ''GG'', Str ''S''] (\<lambda>k. None)
               ''p1'' None None ''mixed'' None None False
             = ([], [(''/tmp/ranch_a/models_b'', Dir), (''/tmp/ranch_a'', Dir), (''/tmp'', Dir)], Inr st)
           \<and> self_overall_sym st = ''m'')"
proof -
  have a: "mkdtemp [''a'', ''b''] [] ''ranch_'' ''/tmp'' [(''/tmp'', Dir)]
           = ([''b''], [(''/tmp/ranch_a'', Dir), (''/tmp'', Dir)], Inr ''/tmp/ranch_a'')"
    by (simp add: exists_path_def fs_write_def Let_def)
  have b: "mkdtemp [''b''] [] ''models_'' ''/tmp/ranch_a'' [(''/tmp/ranch_a'', Dir), (''/tmp'', Dir)]
           = ([], [(''/tmp/ranch_a/models_b'', Dir), (''/tmp/ranch_a'', Dir), (''/tmp'', Dir)],
              Inr ''/tmp/ranch_a/models_b'')"
    by (simp add: exists_path_def fs_write_def Let_def)
  have c: "''asym'' \<notin> {''mixed'', ''symmetry'', ''asymmetry''}" by simp
  note t = Ranch_init_overall_sym [OF a b, where overall_sym = "''asym''"
      and domains = "[Str ''GG'', Other]" and chs = "\<lambda>k. None" and symmetry = "''p1''"
      and symtemplate = None and symunit = None and fixed = None and multich = None
      and debug = False and ss = "[''GG'', ''S'']"]
  have 1: "Ranch_init [''a'', ''b''] ''/tmp'' [(''/tmp'', Dir)] [Str ''GG'', Other] (\<lambda>k. None) ''p1''
             None None ''asym'' None None False
           = ([], [(''/tmp/ranch_a/models_b'', Dir), (''/tmp/ranch_a'', Dir), (''/tmp'', Dir)],
              Inl KeyError)"
    using t [THEN conjunct1] c by blast
  note acc = t [THEN conjunct2, THEN conjunct2, THEN conjunct2, THEN conjunct2, THEN conjunct1]
  have 2: "\<exists>st. Ranch_init [''a'', ''b''] ''/tmp'' [(''/tmp'', Dir)] [Str ''GG'', Str ''S''] (\<lambda>k. None)
               ''p1'' None None ''symmetry'' None None False
             = ([], [(''/tmp/ranch_a/models_b'', Dir), (''/tmp/ranch_a'', Dir), (''/tmp'', Dir)], Inr st)
           \<and> self_overall_sym st = ''s'' \<and> self_sequence st = ''GGS''"
    using acc [rule_format, of "''symmetry''" "''s''"] by simp
  have 3: "\<exists>st. Ranch_init [''a'', ''b''] ''/tmp'' [(''/tmp'', Dir)] [Str ''GG'', Str ''S''] (\<lambda>k. None)
               ''p1'' None None ''asymmetry'' None None False
             = ([], [(''/tmp/ranch_a/models_b'', Dir), (''/tmp/ranch_a'', Dir), (''/tmp'', Dir)], Inr st)
           \<and> self_overall_sym st = ''a''"
    using acc [rule_format, of "''asymmetry''" "''a''"] by auto
  have 4: "\<exists>st. Ranch_init [''a'', ''b''] ''/tmp'' [(''/tmp'', Dir)] [Str ''GG'', Str ''S''] (\<lambda>k. None)
               ''p1'' None None ''mixed'' None None False
             = ([], [(''/tmp/ranch_a/models_b'', Dir), (''/tmp/ranch_a'', Dir), (''/tmp'', Dir)], Inr st)
           \<and> self_overall_sym st = ''m''"
    using acc [rule_format, of "''mixed''" "''m''"] by auto
  show ?thesis using 1 2 3 4 by blast
qed

section \<open>The argument string\<close>

lemma pdb_name_pdbs_in [simp]: "pdb_name (st\<lparr>self_pdbs_in := x\<rparr>) i = pdb_name st i"
  by (simp add: pdb_name_def)




lemma py_format_directive:
  "py_format (CHR ''%'' # CHR ''s'' # fmt) (a # args) = bindE (py_format fmt args) (\<lambda>r. Inr (a @ r))"
  by simp




section \<open>Temporary folders\<close>

lemma map_of_filter_key:
  "map_of (filter (\<lambda>(q, e). P q) fs) k = (if P k then map_of fs k else None)"
  by (induction fs) auto

lemma exists_tryRemove_tree:
  "exists_path (tryRemove_tree fs p) q \<longleftrightarrow>
     exists_path fs q \<and> q \<noteq> p \<and> \<not> starts_with (p @ ''/'') q"
  by (auto simp: exists_path_def tryRemove_tree_def map_of_filter_key)

lemma tryRemove_tree_idem: "tryRemove_tree (tryRemove_tree fs p) p = tryRemove_tree fs p"
  by (simp add: tryRemove_tree_def case_prod_unfold)

lemma mkdtemp_fresh:
  "mkdtemp names suffix prefix dir fs = (names', fs', Inr file) \<Longrightarrow>
     \<not> exists_path fs file \<and> fs' = (file, Dir) # fs
     \<and> (\<exists>name. file = dir @ ''/'' @ prefix @ name @ suffix)"
proof (induction names)
  case Nil
  then show ?case by simp
next
  case (Cons name names)
  then show ?case
    by (auto simp: Let_def fs_write_def split: if_splits)
qed

lemma frame_tempdir: "frame st st' \<Longrightarrow> self_tempdir st' = self_tempdir st \<and> self_debug st' = self_debug st"
  by (cases st; cases st') (auto simp: frame_def)

lemma Ranch_setup_tempdir:
  assumes "Ranch_setup st = Inr st'"
  shows "self_tempdir st' = self_tempdir st \<and> self_debug st' = self_debug st"
proof -
  from assms obtain st1 where a: "setup_loop st 0 (self_domains st) = Inr st1"
    and b: "st' = (if model_truthy (map_option snd (self_symtemplate st1))
                   then st1\<lparr>self_symseq := Some (self_sequence st1)\<rparr> else st1)"
    by (auto simp: Ranch_setup_def bindE_Inr_iff)
  have "frame st st1" using a by (rule setup_loop_frame)
  then show ?thesis using b frame_tempdir by auto
qed

lemma Ranch_init_tempdir:
  assumes "Ranch_init names tempDir fs domains chs symmetry symtemplate symunit overall_sym
             fixed multich debug = (names', fs', Inr st)"
  shows "\<not> exists_path fs (self_tempdir st) \<and> map_of fs' (self_tempdir st) = Some Dir
         \<and> self_debug st = debug"
proof -
  from assms obtain names1 fs1 tempdir where
    a: "mkdtemp names [] ''ranch_'' tempDir fs = (names1, fs1, Inr tempdir)"
    by (auto simp: Ranch_init_def split: prod.splits sum.splits)
  from assms a obtain dir_models where
    b: "mkdtemp names1 [] ''models_'' tempdir fs1 = (names', fs', Inr dir_models)"
    by (auto simp: Ranch_init_def split: prod.splits sum.splits)
  have fa: "\<not> exists_path fs tempdir" and f1: "fs1 = (tempdir, Dir) # fs"
    using mkdtemp_fresh [OF a] by auto
  obtain name where f2: "fs' = (dir_models, Dir) # fs1"
    and dm: "dir_models = tempdir @ ''/'' @ ''models_'' @ name @ []"
    using mkdtemp_fresh [OF b] by auto
  have ne: "dir_models \<noteq> tempdir" using dm by simp
  have t: "self_tempdir st = tempdir \<and> self_debug st = debug"
    using assms a b
    by (auto simp: Ranch_init_def bindE_Inr_iff dest!: Ranch_setup_tempdir)
  show ?thesis using fa f1 f2 ne t by simp
qed

lemma os_path_join_longer: "length (os_path_join a ''model.pdb'') > length a"
  by (simp add: os_path_join_def starts_with_def)

lemma Pulchra_init_tempdir:
  assumes "Pulchra_init names tempDir here fs model debug = (names', fs', Inr st)"
  shows "\<not> exists_path fs (p_tempdir st) \<and> map_of fs' (p_tempdir st) = Some Dir
         \<and> p_debug st = debug"
proof -
  from assms obtain names1 fs1 tempdir where
    a: "mkdtemp names [] ''pulchra_'' tempDir fs = (names1, fs1, Inr tempdir)"
    by (auto simp: Pulchra_init_def split: prod.splits sum.splits)
  have fa: "\<not> exists_path fs tempdir" and f1: "fs1 = (tempdir, Dir) # fs"
    using mkdtemp_fresh [OF a] by auto
  have ne: "os_path_join tempdir ''model.pdb'' \<noteq> tempdir"
    using os_path_join_longer [of tempdir] by auto
  have "p_tempdir st = tempdir" "p_debug st = debug"
    "fs' = (os_path_join tempdir ''model.pdb'', PdbFile model) # fs1"
    using assms a by (auto simp: Pulchra_init_def Let_def fs_write_def)
  then show ?thesis using fa f1 ne by simp
qed

text \<open>
  C7. For \<open>Ranch\<close> and for \<open>Pulchra\<close>: when \<open>debug\<close> is false, nothing exists at or below
  the temporary folder of the object after \<open>cleanup\<close>; when \<open>debug\<close> is true, \<open>cleanup\<close>
  leaves the file system as it is. A constructor that returns creates the temporary folder
  of its object: the path did not exist before the call and is a directory after it.
\<close>

theorem cleanup_tempdir:
  "(\<not> self_debug r \<longrightarrow>
      (\<forall>q. exists_path (Ranch_cleanup r fs) q \<longrightarrow>
            q \<noteq> self_tempdir r \<and> \<not> starts_with (self_tempdir r @ ''/'') q))
   \<and> (self_debug r \<longrightarrow> Ranch_cleanup r fs = fs)
   \<and> (\<not> p_debug p \<longrightarrow>
      (\<forall>q. exists_path (Pulchra_cleanup p fs) q \<longrightarrow>
            q \<noteq> p_tempdir p \<and> \<not> starts_with (p_tempdir p @ ''/'') q))
   \<and> (p_debug p \<longrightarrow> Pulchra_cleanup p fs = fs)
   \<and> (Ranch_init names tempDir fs domains chs symmetry symtemplate symunit overall_sym
         fixed multich debug = (names', fs', Inr r') \<longrightarrow>
       \<not> exists_path fs (self_tempdir r') \<and> map_of fs' (self_tempdir r') = Some Dir
       \<and> self_debug r' = debug)
   \<and> (Pulchra_init names tempDir here fs model debug = (names'', fs'', Inr p') \<longrightarrow>
       \<not> exists_path fs (p_tempdir p') \<and> map_of fs'' (p_tempdir p') = Some Dir
       \<and> p_debug p' = debug)"
proof (intro conjI impI allI)
  fix q
  assume "\<not> self_debug r" and "exists_path (Ranch_cleanup r fs) q"
  then have "exists_path (tryRemove_tree fs (self_tempdir r)) q"
    by (simp add: Ranch_cleanup_def Executor_cleanup_def tryRemove_tree_idem)
  then show "q \<noteq> self_tempdir r" and "\<not> starts_with (self_tempdir r @ ''/'') q"
    by (simp_all add: exists_tryRemove_tree)
next
  assume "self_debug r"
  then show "Ranch_cleanup r fs = fs"
    by (simp add: Ranch_cleanup_def Executor_cleanup_def)
next
  fix q
  assume "\<not> p_debug p" and "exists_path (Pulchra_cleanup p fs) q"
  then have "exists_path (tryRemove_tree fs (p_tempdir p)) q"
    by (simp add: Pulchra_cleanup_def)
  then show "q \<noteq> p_tempdir p" and "\<not> starts_with (p_tempdir p @ ''/'') q"
    by (simp_all add: exists_tryRemove_tree)
next
  assume "p_debug p"
  then show "Pulchra_cleanup p fs = fs" by (simp add: Pulchra_cleanup_def)
next
  assume a: "Ranch_init names tempDir fs domains chs symmetry symtemplate symunit overall_sym
               fixed multich debug = (names', fs', Inr r')"
  show "\<not> exists_path fs (self_tempdir r')" "map_of fs' (self_tempdir r') = Some Dir"
    "self_debug r' = debug"
    using Ranch_init_tempdir [OF a] by simp_all
next
  assume a: "Pulchra_init names tempDir here fs model debug = (names'', fs'', Inr p')"
  show "\<not> exists_path fs (p_tempdir p')" "map_of fs'' (p_tempdir p') = Some Dir"
    "p_debug p' = debug"
    using Pulchra_init_tempdir [OF a] by simp_all
qed

theorem cleanup_tempdir_witness:
  "\<exists>names' fs' r names'' fs'' p.
     Ranch_init [''a'', ''b''] ''/tmp'' [(''/tmp'', Dir)] [Str ''GG''] (\<lambda>k. None) ''p1'' None None
       ''mixed'' None None False = (names', fs', Inr r)
   \<and> Pulchra_init [''c''] ''/tmp'' ''/src'' [(''/tmp'', Dir)] empty_model True = (names'', fs'', Inr p)
   \<and> \<not> exists_path [(''/tmp'', Dir)] (self_tempdir r) \<and> map_of fs' (self_tempdir r) = Some Dir
   \<and> \<not> exists_path [(''/tmp'', Dir)] (p_tempdir p) \<and> map_of fs'' (p_tempdir p) = Some Dir
   \<and> \<not> self_debug r \<and> p_debug p
   \<and> \<not> exists_path (Ranch_cleanup r fs') (self_tempdir r)
   \<and> Ranch_cleanup (r\<lparr>self_debug := True\<rparr>) fs' = fs'
   \<and> \<not> exists_path (Pulchra_cleanup (p\<lparr>p_debug := False\<rparr>) fs'') (p_tempdir p)
   \<and> Pulchra_cleanup p fs'' = fs''"
proof -
  obtain n1 f1 r where R:
    "Ranch_init [''a'', ''b''] ''/tmp'' [(''/tmp'', Dir)] [Str ''GG''] (\<lambda>k. None) ''p1'' None None
       ''mixed'' None None False = (n1, f1, Inr r)"
    by (simp add: Ranch_init_def Let_def exists_path_def fs_write_def overall_symmetry_def
          Ranch_setup_def model_truthy_def)
  obtain n2 f2 p where P:
    "Pulchra_init [''c''] ''/tmp'' ''/src'' [(''/tmp'', Dir)] empty_model True = (n2, f2, Inr p)"
    by (simp add: Pulchra_init_def Let_def exists_path_def fs_write_def)
  note init = cleanup_tempdir [where fs = "[(''/tmp'', Dir)]" and names = "[''a'', ''b'']"
      and tempDir = "''/tmp''" and domains = "[Str ''GG'']" and chs = "\<lambda>k. None"
      and symmetry = "''p1''" and symtemplate = None and symunit = None
      and overall_sym = "''mixed''" and fixed = None and multich = None and debug = False
      and names' = n1 and fs' = f1 and r' = r,
      THEN conjunct2, THEN conjunct2, THEN conjunct2, THEN conjunct2, THEN conjunct1]
  note initp = cleanup_tempdir [where fs = "[(''/tmp'', Dir)]" and names = "[''c'']"
      and tempDir = "''/tmp''" and here = "''/src''" and model = empty_model and debug = True
      and names'' = n2 and fs'' = f2 and p' = p,
      THEN conjunct2, THEN conjunct2, THEN conjunct2, THEN conjunct2, THEN conjunct2]
  have r1: "\<not> exists_path [(''/tmp'', Dir)] (self_tempdir r)" "map_of f1 (self_tempdir r) = Some Dir"
    "\<not> self_debug r"
    using init R by simp_all
  have p1: "\<not> exists_path [(''/tmp'', Dir)] (p_tempdir p)" "map_of f2 (p_tempdir p) = Some Dir"
    "p_debug p"
    using initp P by simp_all
  have c1: "\<not> exists_path (Ranch_cleanup r f1) (self_tempdir r)"
    using cleanup_tempdir [where r = r and fs = f1, THEN conjunct1] r1(3) by blast
  have c2: "Ranch_cleanup (r\<lparr>self_debug := True\<rparr>) f1 = f1"
    using cleanup_tempdir [where r = "r\<lparr>self_debug := True\<rparr>" and fs = f1,
        THEN conjunct2, THEN conjunct1] by simp
  have c3: "\<not> exists_path (Pulchra_cleanup (p\<lparr>p_debug := False\<rparr>) f2) (p_tempdir p)"
    using cleanup_tempdir [where p = "p\<lparr>p_debug := False\<rparr>" and fs = f2,
        THEN conjunct2, THEN conjunct2, THEN conjunct1] by auto
  have c4: "Pulchra_cleanup p f2 = f2"
    using cleanup_tempdir [where p = p and fs = f2,
        THEN conjunct2, THEN conjunct2, THEN conjunct2, THEN conjunct1] p1(3) by blast
  show ?thesis using R P r1 p1 c1 c2 c3 c4 by blast
qed

section \<open>Reading the results\<close>

lemma mapE_Inr_iff:
  "mapE f xs = Inr ys \<longleftrightarrow>
     length ys = length xs \<and> (\<forall>i < length xs. f (xs ! i) = Inr (ys ! i))"
proof (induction xs arbitrary: ys)
  case Nil
  then show ?case by auto
next
  case (Cons x xs)
  show ?case
  proof
    assume "mapE f (x # xs) = Inr ys"
    then obtain y ys' where y: "f x = Inr y" and r: "mapE f xs = Inr ys'" and ys: "ys = y # ys'"
      by (auto simp: bindE_Inr_iff)
    have "length ys' = length xs" and "\<forall>i < length xs. f (xs ! i) = Inr (ys' ! i)"
      using Cons.IH r by auto
    then show "length ys = length (x # xs) \<and> (\<forall>i < length (x # xs). f ((x # xs) ! i) = Inr (ys ! i))"
      using y ys by (auto simp: nth_Cons split: nat.splits)
  next
    assume a: "length ys = length (x # xs) \<and> (\<forall>i < length (x # xs). f ((x # xs) ! i) = Inr (ys ! i))"
    then obtain y ys' where ys: "ys = y # ys'" by (cases ys) auto
    have y: "f x = Inr y" using a ys by auto
    have "length ys' = length xs" using a ys by simp
    moreover have "\<forall>i < length xs. f (xs ! i) = Inr (ys' ! i)"
    proof (intro allI impI)
      fix i assume "i < length xs"
      then have "f ((x # xs) ! Suc i) = Inr (ys ! Suc i)" using a by auto
      then show "f (xs ! i) = Inr (ys' ! i)" using ys by simp
    qed
    ultimately have "mapE f xs = Inr ys'" using Cons.IH by blast
    then show "mapE f (x # xs) = Inr ys" using y ys by simp
  qed
qed

lemma number_chains_residues:
  "concat (map residues (number_chains k cs))
   = map (\<lambda>(i, r). r\<lparr>res_number := k + int i\<rparr>) (enumerate 0 (concat (map residues cs)))"
proof (induction cs arbitrary: k)
  case Nil
  then show ?case by simp
next
  case (Cons c cs)
  have e: "enumerate 0 (residues c @ concat (map residues cs))
           = enumerate 0 (residues c) @ enumerate (length (residues c)) (concat (map residues cs))"
    by (simp add: enumerate_append_eq)
  have s: "map (\<lambda>(i, r). r\<lparr>res_number := k + int (length (residues c)) + int i\<rparr>)
              (enumerate 0 (concat (map residues cs)))
           = map (\<lambda>(i, r). r\<lparr>res_number := k + int i\<rparr>)
              (enumerate (length (residues c)) (concat (map residues cs)))"
    by (auto simp: enumerate_eq_zip intro!: nth_equalityI)
  show ?case by (simp add: Cons.IH e s)
qed

lemma renumberResidues_numbers:
  "map res_number (all_residues (renumberResidues m)) = map int [1 ..< Suc (lenResidues m)]"
proof -
  have "map res_number (all_residues (renumberResidues m))
        = map (\<lambda>(i, r). 1 + int i) (enumerate 0 (all_residues m))"
    by (simp add: all_residues_def renumberResidues_def number_chains_residues case_prod_unfold)
  also have "\<dots> = map int [1 ..< Suc (lenResidues m)]"
  proof (rule nth_equalityI)
    show "length (map (\<lambda>(i, r). 1 + int i) (enumerate 0 (all_residues m)))
          = length (map int [1 ..< Suc (lenResidues m)])"
      by (simp add: lenResidues_def del: upt_Suc)
  next
    fix i assume "i < length (map (\<lambda>(i, r). 1 + int i) (enumerate 0 (all_residues m)))"
    then have i: "i < length (all_residues m)" by simp
    then have "[1 ..< Suc (lenResidues m)] ! i = 1 + i"
      by (simp add: lenResidues_def del: upt_Suc)
    then show "map (\<lambda>(i, r). 1 + int i) (enumerate 0 (all_residues m)) ! i
               = map int [1 ..< Suc (lenResidues m)] ! i"
      using i by (simp add: nth_enumerate_eq lenResidues_def del: upt_Suc)
  qed
  finally show ?thesis .
qed

lemma renumberResidues_sequence [simp]: "sequence (renumberResidues m) = sequence m"
proof -
  have "map res_name (map (\<lambda>(i, r). r\<lparr>res_number := 1 + int i\<rparr>) (enumerate 0 (all_residues m)))
        = map res_name (all_residues m)"
    by (auto simp: enumerate_eq_zip intro!: nth_equalityI)
  then show ?thesis
    by (simp add: sequence_def all_residues_def renumberResidues_def number_chains_residues)
qed

lemma Pulchra_init_rb_path:
  assumes "Pulchra_init names tempDir here fs model debug = (names', fs', Inr p)"
  shows "p_rb_path p = os_path_join (p_tempdir p) ''model.rebuilt.pdb''"
proof -
  from assms obtain names1 fs1 tempdir where
    a: "mkdtemp names [] ''pulchra_'' tempDir fs = (names1, fs1, Inr tempdir)"
    by (auto simp: Pulchra_init_def split: prod.splits sum.splits)
  have "p_tempdir p = tempdir"
    and "p_rb_path p = take (length (os_path_join tempdir ''model.pdb'') - 3)
                          (os_path_join tempdir ''model.pdb'') @ ''rebuilt.pdb''"
    using assms a by (auto simp: Pulchra_init_def Let_def)
  then show ?thesis by (simp add: os_path_join_def starts_with_def)
qed

text \<open>
  C6. \<open>Ranch.finish\<close> returns exactly when every file of the models folder can be read
  and its extraction succeeds; it then sets \<open>result\<close> to a list with one entry per file,
  in the order of the listing, where the entry of a file is
  \<open>extract_symmetric(PDBModel(file), symseq, embedded)\<close> when the symtemplate is set
  (truthy) and \<open>extract_embedded(PDBModel(file), embedded)\<close> otherwise. \<open>Pulchra.finish\<close>
  returns exactly when the file at \<open>rb_path\<close> can be read, and sets \<open>result\<close> to that
  single model with its residues numbered 1, 2, ...; the constructor has set \<open>rb_path\<close> to
  \<open>model.rebuilt.pdb\<close> in the temporary folder.
\<close>

theorem finish_results:
  "(Ranch_finish listdir load st = Inr st' \<longleftrightarrow>
      (\<exists>rs. st' = st\<lparr>self_result := Some rs\<rparr> \<and> length rs = length listdir \<and>
         (\<forall>i < length listdir. \<exists>model.
            load (self_dir_models st @ ''/'' @ listdir ! i) = Inr model \<and>
            (if model_truthy (map_option snd (self_symtemplate st))
             then \<exists>symseq. self_symseq st = Some symseq \<and>
                    extract_symmetric model symseq (self_embedded st) = Inr (rs ! i)
             else snd (extract_embedded model (self_embedded st)) = Inr (rs ! i)))))
   \<and> (Pulchra_finish load p = Inr p' \<longleftrightarrow>
        (\<exists>m. load (p_rb_path p) = Inr m \<and> p' = p\<lparr>p_result := Some (renumberResidues m)\<rparr>))
   \<and> map res_number (all_residues (renumberResidues m)) = map int [1 ..< Suc (lenResidues m)]
   \<and> (Pulchra_init names tempDir here fs model0 debug = (names', fs', Inr p0) \<longrightarrow>
        p_rb_path p0 = os_path_join (p_tempdir p0) ''model.rebuilt.pdb'')"
proof (intro conjI)
  let ?paths = "map (\<lambda>f. self_dir_models st @ ''/'' @ f) listdir"
  let ?f = "if model_truthy (map_option snd (self_symtemplate st))
            then finish_symmetric load st else finish_embedded load st"
  have f: "\<And>path r. ?f path = Inr r \<longleftrightarrow>
             (\<exists>model. load path = Inr model \<and>
                (if model_truthy (map_option snd (self_symtemplate st))
                 then \<exists>symseq. self_symseq st = Some symseq \<and>
                        extract_symmetric model symseq (self_embedded st) = Inr r
                 else snd (extract_embedded model (self_embedded st)) = Inr r))"
    by (auto simp: finish_symmetric_def finish_embedded_def bindE_Inr_iff split: option.splits)
  have "Ranch_finish listdir load st = Inr st' \<longleftrightarrow>
          (\<exists>rs. mapE ?f ?paths = Inr rs \<and> st' = st\<lparr>self_result := Some rs\<rparr>)"
    by (auto simp: Ranch_finish_def Let_def bindE_Inr_iff)
  also have "\<dots> \<longleftrightarrow> (\<exists>rs. st' = st\<lparr>self_result := Some rs\<rparr> \<and> length rs = length listdir \<and>
                 (\<forall>i < length listdir. ?f (self_dir_models st @ ''/'' @ listdir ! i) = Inr (rs ! i)))"
    by (auto simp: mapE_Inr_iff)
  finally show "Ranch_finish listdir load st = Inr st' \<longleftrightarrow>
      (\<exists>rs. st' = st\<lparr>self_result := Some rs\<rparr> \<and> length rs = length listdir \<and>
         (\<forall>i < length listdir. \<exists>model.
            load (self_dir_models st @ ''/'' @ listdir ! i) = Inr model \<and>
            (if model_truthy (map_option snd (self_symtemplate st))
             then \<exists>symseq. self_symseq st = Some symseq \<and>
                    extract_symmetric model symseq (self_embedded st) = Inr (rs ! i)
             else snd (extract_embedded model (self_embedded st)) = Inr (rs ! i))))"
    unfolding f .
next
  show "Pulchra_finish load p = Inr p' \<longleftrightarrow>
        (\<exists>m. load (p_rb_path p) = Inr m \<and> p' = p\<lparr>p_result := Some (renumberResidues m)\<rparr>)"
    by (auto simp: Pulchra_finish_def bindE_Inr_iff)
next
  show "map res_number (all_residues (renumberResidues m)) = map int [1 ..< Suc (lenResidues m)]"
    by (rule renumberResidues_numbers)
next
  show "Pulchra_init names tempDir here fs model0 debug = (names', fs', Inr p0) \<longrightarrow>
        p_rb_path p0 = os_path_join (p_tempdir p0) ''model.rebuilt.pdb''"
    using Pulchra_init_rb_path by blast
qed

theorem finish_results_witness:
  "\<exists>n f r n2 f2 p.
     Ranch_init [''a'', ''b''] ''/tmp'' [(''/tmp'', Dir)] [Str ''GG''] (\<lambda>k. None) ''p1'' None None
       ''mixed'' None None False = (n, f, Inr r)
   \<and> Pulchra_init [''c''] ''/tmp'' ''/src'' [(''/tmp'', Dir)] empty_model False = (n2, f2, Inr p)
   \<and> Ranch_finish [''x.pdb''] (\<lambda>q. Inr \<lparr>chains = [\<lparr>chain_id = ''A'', residues = [\<lparr>res_name = CHR ''G'', res_number = 7, atoms = [(0, 0, 0)]\<rparr>]\<rparr>], source = None\<rparr>) r = Inr (r\<lparr>self_result := Some [\<lparr>chains = [\<lparr>chain_id = ''A'', residues = [\<lparr>res_name = CHR ''G'', res_number = 1, atoms = [(0, 0, 0)]\<rparr>]\<rparr>], source = None\<rparr>]\<rparr>)
   \<and> Pulchra_finish (\<lambda>q. Inr \<lparr>chains = [\<lparr>chain_id = ''A'', residues = [\<lparr>res_name = CHR ''G'', res_number = 7, atoms = [(0, 0, 0)]\<rparr>]\<rparr>], source = None\<rparr>) p = Inr (p\<lparr>p_result := Some \<lparr>chains = [\<lparr>chain_id = ''A'', residues = [\<lparr>res_name = CHR ''G'', res_number = 1, atoms = [(0, 0, 0)]\<rparr>]\<rparr>], source = None\<rparr>\<rparr>)
   \<and> p_rb_path p = ''/tmp/pulchra_c/model.rebuilt.pdb''"
proof -
  obtain n f r where R:
    "Ranch_init [''a'', ''b''] ''/tmp'' [(''/tmp'', Dir)] [Str ''GG''] (\<lambda>k. None) ''p1'' None None
       ''mixed'' None None False = (n, f, Inr r)"
    and r: "self_symtemplate r = None" "self_embedded r = []"
    by (simp add: Ranch_init_def Let_def exists_path_def fs_write_def overall_symmetry_def
          Ranch_setup_def model_truthy_def)
  obtain n2 f2 p where P:
    "Pulchra_init [''c''] ''/tmp'' ''/src'' [(''/tmp'', Dir)] empty_model False = (n2, f2, Inr p)"
    and p: "p_tempdir p = ''/tmp/pulchra_c''"
    by (simp add: Pulchra_init_def Let_def exists_path_def fs_write_def)
  have e: "snd (extract_embedded \<lparr>chains = [\<lparr>chain_id = ''A'', residues = [\<lparr>res_name = CHR ''G'', res_number = 7, atoms = [(0, 0, 0)]\<rparr>]\<rparr>], source = None\<rparr> []) = Inr \<lparr>chains = [\<lparr>chain_id = ''A'', residues = [\<lparr>res_name = CHR ''G'', res_number = 1, atoms = [(0, 0, 0)]\<rparr>]\<rparr>], source = None\<rparr>"
    by code_simp
  have rn: "renumberResidues \<lparr>chains = [\<lparr>chain_id = ''A'', residues = [\<lparr>res_name = CHR ''G'', res_number = 7, atoms = [(0, 0, 0)]\<rparr>]\<rparr>], source = None\<rparr> = \<lparr>chains = [\<lparr>chain_id = ''A'', residues = [\<lparr>res_name = CHR ''G'', res_number = 1, atoms = [(0, 0, 0)]\<rparr>]\<rparr>], source = None\<rparr>"
    by code_simp
  have a: "Ranch_finish [''x.pdb''] (\<lambda>q. Inr \<lparr>chains = [\<lparr>chain_id = ''A'', residues = [\<lparr>res_name = CHR ''G'', res_number = 7, atoms = [(0, 0, 0)]\<rparr>]\<rparr>], source = None\<rparr>) r = Inr (r\<lparr>self_result := Some [\<lparr>chains = [\<lparr>chain_id = ''A'', residues = [\<lparr>res_name = CHR ''G'', res_number = 1, atoms = [(0, 0, 0)]\<rparr>]\<rparr>], source = None\<rparr>]\<rparr>)"
  proof (rule finish_results [where listdir = "[''x.pdb'']" and load = "\<lambda>q. Inr \<lparr>chains = [\<lparr>chain_id = ''A'', residues = [\<lparr>res_name = CHR ''G'', res_number = 7, atoms = [(0, 0, 0)]\<rparr>]\<rparr>], source = None\<rparr>" and st = r
        and st' = "r\<lparr>self_result := Some [\<lparr>chains = [\<lparr>chain_id = ''A'', residues = [\<lparr>res_name = CHR ''G'', res_number = 1, atoms = [(0, 0, 0)]\<rparr>]\<rparr>], source = None\<rparr>]\<rparr>", THEN conjunct1, THEN iffD2])
    show "\<exists>rs. r\<lparr>self_result := Some [\<lparr>chains = [\<lparr>chain_id = ''A'', residues = [\<lparr>res_name = CHR ''G'', res_number = 1, atoms = [(0, 0, 0)]\<rparr>]\<rparr>], source = None\<rparr>]\<rparr> = r\<lparr>self_result := Some rs\<rparr> \<and>
            length rs = length [''x.pdb''] \<and>
            (\<forall>i < length [''x.pdb'']. \<exists>model.
               Inr \<lparr>chains = [\<lparr>chain_id = ''A'', residues = [\<lparr>res_name = CHR ''G'', res_number = 7, atoms = [(0, 0, 0)]\<rparr>]\<rparr>], source = None\<rparr> = Inr model \<and>
               (if model_truthy (map_option snd (self_symtemplate r))
                then \<exists>symseq. self_symseq r = Some symseq \<and>
                       extract_symmetric model symseq (self_embedded r) = Inr (rs ! i)
                else snd (extract_embedded model (self_embedded r)) = Inr (rs ! i)))"
      by (rule exI [of _ "[\<lparr>chains = [\<lparr>chain_id = ''A'', residues = [\<lparr>res_name = CHR ''G'', res_number = 1, atoms = [(0, 0, 0)]\<rparr>]\<rparr>], source = None\<rparr>]"]) (simp add: r e model_truthy_def)
  qed
  have b: "Pulchra_finish (\<lambda>q. Inr \<lparr>chains = [\<lparr>chain_id = ''A'', residues = [\<lparr>res_name = CHR ''G'', res_number = 7, atoms = [(0, 0, 0)]\<rparr>]\<rparr>], source = None\<rparr>) p = Inr (p\<lparr>p_result := Some \<lparr>chains = [\<lparr>chain_id = ''A'', residues = [\<lparr>res_name = CHR ''G'', res_number = 1, atoms = [(0, 0, 0)]\<rparr>]\<rparr>], source = None\<rparr>\<rparr>)"
    using finish_results [where load = "\<lambda>q. Inr \<lparr>chains = [\<lparr>chain_id = ''A'', residues = [\<lparr>res_name = CHR ''G'', res_number = 7, atoms = [(0, 0, 0)]\<rparr>]\<rparr>], source = None\<rparr>" and p = p
        and p' = "p\<lparr>p_result := Some \<lparr>chains = [\<lparr>chain_id = ''A'', residues = [\<lparr>res_name = CHR ''G'', res_number = 1, atoms = [(0, 0, 0)]\<rparr>]\<rparr>], source = None\<rparr>\<rparr>", THEN conjunct2, THEN conjunct1] rn
    by simp
  have c: "p_rb_path p = ''/tmp/pulchra_c/model.rebuilt.pdb''"
    using finish_results [where names = "[''c'']" and tempDir = "''/tmp''" and here = "''/src''"
        and fs = "[(''/tmp'', Dir)]" and ?model0.0 = empty_model and debug = False
        and names' = n2 and fs' = f2 and ?p0.0 = p,
        THEN conjunct2, THEN conjunct2, THEN conjunct2] P p
    by (simp add: os_path_join_def starts_with_def)
  show ?thesis using R P a b c by blast
qed

section \<open>The break in the setup loop\<close>

lemma bindE_cong_Inr:
  "(\<And>v. x = Inr v \<Longrightarrow> f v = g v) \<Longrightarrow> bindE x f = bindE x g"
  by (cases x) simp_all

lemma frame_config:
  "frame st st' \<Longrightarrow>
     self_multich st' = self_multich st \<and> self_fixed st' = self_fixed st
     \<and> self_chains st' = self_chains st \<and> self_symunit st' = self_symunit st"
  by (cases st; cases st') (auto simp: frame_def)

lemma setup_loop_break:
  assumes "self_multich st ! (i + length (filter is_PDBModel pre)) \<noteq> ''yes''"
    and "self_fixed st ! (i + length (filter is_PDBModel pre)) \<noteq> ''yes''"
    and "lenChains element \<noteq> 1"
    and "self_chains st oid = Some (ChainList ids)"
  shows "setup_loop st i (pre @ Model oid element # rest) = setup_loop st i (pre @ [Model oid element])"
  using assms
proof (induction pre arbitrary: st i)
  case Nil
  then show ?case
    by (auto simp: py_index_def intro!: bindE_cong_Inr)
next
  case (Cons d pre)
  show ?case
  proof (cases d)
    case (Str s)
    have "setup_loop (st\<lparr>self_sequence := self_sequence st @ s\<rparr>) i (pre @ Model oid element # rest)
          = setup_loop (st\<lparr>self_sequence := self_sequence st @ s\<rparr>) i (pre @ [Model oid element])"
      using Cons.prems by (intro Cons.IH) (simp_all add: Str is_PDBModel_def)
    then show ?thesis by (simp add: Str)
  next
    case Other
    then show ?thesis by simp
  next
    case (Model o2 e2)
    have cnt: "i + length (filter is_PDBModel (d # pre)) = Suc i + length (filter is_PDBModel pre)"
      by (simp add: Model is_PDBModel_def)
    have step: "setup_loop st' (Suc i) (pre @ Model oid element # rest)
                = setup_loop st' (Suc i) (pre @ [Model oid element])"
      if "frame st st'" for st'
    proof (rule Cons.IH)
      show "self_multich st' ! (Suc i + length (filter is_PDBModel pre)) \<noteq> ''yes''"
        using Cons.prems(1) frame_config [OF that] cnt by simp
      show "self_fixed st' ! (Suc i + length (filter is_PDBModel pre)) \<noteq> ''yes''"
        using Cons.prems(2) frame_config [OF that] cnt by simp
      show "lenChains element \<noteq> 1" by (rule Cons.prems(3))
      show "self_chains st' oid = Some (ChainList ids)"
        using Cons.prems(4) frame_config [OF that] by simp
    qed
    have add: "setup_loop (setup_add st s e2) (Suc i) (pre @ Model oid element # rest)
               = setup_loop (setup_add st s e2) (Suc i) (pre @ [Model oid element])" for s
      by (rule step) simp
    have emb: "bindE (setup_embed st e2 cid) (\<lambda>st'. setup_loop st' (Suc i) (pre @ Model oid element # rest))
               = bindE (setup_embed st e2 cid) (\<lambda>st'. setup_loop st' (Suc i) (pre @ [Model oid element]))"
      for cid
      by (rule bindE_cong_Inr) (rule step, rule setup_embed_frame)
    show ?thesis
      unfolding Model append_Cons setup_loop.simps add emb ..
  qed
qed

lemma setup_embed_domains:
  "setup_embed (st\<lparr>self_domains := d\<rparr>) e cid
   = map_sum id (\<lambda>s. s\<lparr>self_domains := d\<rparr>) (setup_embed st e cid)"
  by (simp add: setup_embed_def Let_def bindE_def split: sum.splits)

lemma setup_add_domains:
  "setup_add (st\<lparr>self_domains := d\<rparr>) s e = (setup_add st s e)\<lparr>self_domains := d\<rparr>"
  by (simp add: setup_add_def)

lemma setup_loop_domains:
  "setup_loop (st\<lparr>self_domains := d\<rparr>) i ds
   = map_sum id (\<lambda>s. s\<lparr>self_domains := d\<rparr>) (setup_loop st i ds)"
proof (induction st i ds rule: setup_loop.induct)
  case (1 st i)
  then show ?case by simp
next
  case (2 st i s rest)
  have eq: "st\<lparr>self_domains := d, self_sequence := self_sequence st @ s\<rparr>
        = st\<lparr>self_sequence := self_sequence st @ s, self_domains := d\<rparr>"
    by (cases st) simp
  have "setup_loop (st\<lparr>self_domains := d\<rparr>) i (Str s # rest)
        = setup_loop (st\<lparr>self_domains := d, self_sequence := self_sequence st @ s\<rparr>) i rest"
    by simp
  also have "\<dots> = setup_loop (st\<lparr>self_sequence := self_sequence st @ s, self_domains := d\<rparr>) i rest"
    by (simp only: eq)
  also have "\<dots> = map_sum id (\<lambda>s. s\<lparr>self_domains := d\<rparr>)
                    (setup_loop (st\<lparr>self_sequence := self_sequence st @ s\<rparr>) i rest)"
    by (rule "2.IH")
  also have "\<dots> = map_sum id (\<lambda>s. s\<lparr>self_domains := d\<rparr>) (setup_loop st i (Str s # rest))"
    by (simp only: setup_loop.simps)
  finally show ?case .
next
  case (3 st i rest)
  then show ?case by simp
next
  case (4 st i oid element rest)
  show ?case
    using "4.IH"
    by (auto simp: bindE_def setup_add_domains setup_embed_domains id_def
             split: sum.splits option.splits chain_spec.splits)
qed

text \<open>
  C9. Let the domains contain a model for which \<open>multich\<close> is not \<open>yes\<close>, which has more
  than one chain, for which \<open>fixed\<close> is not \<open>yes\<close>, and whose entry in \<open>chains\<close> is a list.
  Then \<open>_setup\<close> with any elements \<open>rest\<close> after that model does what it does without
  them (the outcome differs only in the attribute \<open>domains\<close> itself): no later element
  contributes to \<open>self.sequence\<close> or \<open>self.doms_in\<close>, or raises.
\<close>

theorem setup_break:
  assumes "self_multich st ! length (filter is_PDBModel pre) \<noteq> ''yes''"
    and "1 < lenChains element"
    and "self_fixed st ! length (filter is_PDBModel pre) \<noteq> ''yes''"
    and "self_chains st oid = Some (ChainList ids)"
  shows "Ranch_setup (st\<lparr>self_domains := pre @ Model oid element # rest\<rparr>)
         = map_sum id (\<lambda>s. s\<lparr>self_domains := pre @ Model oid element # rest\<rparr>)
             (Ranch_setup (st\<lparr>self_domains := pre @ [Model oid element]\<rparr>))
       \<and> map_sum id (\<lambda>s. (self_sequence s, self_doms_in s))
             (Ranch_setup (st\<lparr>self_domains := pre @ Model oid element # rest\<rparr>))
         = map_sum id (\<lambda>s. (self_sequence s, self_doms_in s))
             (Ranch_setup (st\<lparr>self_domains := pre @ [Model oid element]\<rparr>))"
proof -
  have b: "setup_loop st 0 (pre @ Model oid element # rest) = setup_loop st 0 (pre @ [Model oid element])"
    using assms by (intro setup_loop_break) simp_all
  have 1: "Ranch_setup (st\<lparr>self_domains := pre @ Model oid element # rest\<rparr>)
           = map_sum id (\<lambda>s. s\<lparr>self_domains := pre @ Model oid element # rest\<rparr>)
               (Ranch_setup (st\<lparr>self_domains := pre @ [Model oid element]\<rparr>))"
    by (cases "setup_loop st 0 (pre @ [Model oid element])")
       (simp_all add: Ranch_setup_def setup_loop_domains b)
  then have "map_sum id (\<lambda>s. (self_sequence s, self_doms_in s))
               (Ranch_setup (st\<lparr>self_domains := pre @ Model oid element # rest\<rparr>))
             = map_sum id (\<lambda>s. (self_sequence s, self_doms_in s))
               (Ranch_setup (st\<lparr>self_domains := pre @ [Model oid element]\<rparr>))"
    by (cases "Ranch_setup (st\<lparr>self_domains := pre @ [Model oid element]\<rparr>)") simp_all
  then show ?thesis using 1 by blast
qed

theorem setup_break_witness:
  "map_sum id (\<lambda>s. (self_sequence s, length (self_doms_in s), map snd (self_embedded s)))
     (Ranch_setup (\<lparr>self_domains = [], self_chains = (\<lambda>k. if k = 1 then Some (ChainList [''A'']) else None), self_sequence = [], self_symmetry = ''p1'', self_symtemplate = None, self_doms_in = [], self_pdbs_in = [], self_embedded = [], self_overall_sym = ''m'', self_fixed = [''no''], self_multich = [''no''], self_symunit = None, self_symseq = None, self_dir_models = ''/tmp/r/models'', self_f_seq = ''/tmp/r/sequence.seq'', self_tempdir = ''/tmp/r'', self_debug = False, self_args = [], self_result = None, self_error = PNone, self_output = PNone\<rparr>\<lparr>self_domains := [Str ''GG'', Model 1 \<lparr>chains = [\<lparr>chain_id = ''A'', residues = [\<lparr>res_name = CHR ''G'', res_number = 1, atoms = [(0, 0, 0)]\<rparr>, \<lparr>res_name = CHR ''A'', res_number = 2, atoms = [(1, 0, 0)]\<rparr>, \<lparr>res_name = CHR ''S'', res_number = 3, atoms = [(2, 0, 0)]\<rparr>]\<rparr>, \<lparr>chain_id = ''B'', residues = [\<lparr>res_name = CHR ''K'', res_number = 1, atoms = [(5, 0, 0)]\<rparr>]\<rparr>], source = None\<rparr>, Other, Str ''XX'']\<rparr>))
   = Inr (''GGGAKS'', 1, [4])"
proof -
  let ?st = "\<lparr>self_domains = [], self_chains = (\<lambda>k. if k = 1 then Some (ChainList [''A'']) else None), self_sequence = [], self_symmetry = ''p1'', self_symtemplate = None, self_doms_in = [], self_pdbs_in = [], self_embedded = [], self_overall_sym = ''m'', self_fixed = [''no''], self_multich = [''no''], self_symunit = None, self_symseq = None, self_dir_models = ''/tmp/r/models'', self_f_seq = ''/tmp/r/sequence.seq'', self_tempdir = ''/tmp/r'', self_debug = False, self_args = [], self_result = None, self_error = PNone, self_output = PNone\<rparr>"
  let ?el = "\<lparr>chains = [\<lparr>chain_id = ''A'', residues = [\<lparr>res_name = CHR ''G'', res_number = 1, atoms = [(0, 0, 0)]\<rparr>, \<lparr>res_name = CHR ''A'', res_number = 2, atoms = [(1, 0, 0)]\<rparr>, \<lparr>res_name = CHR ''S'', res_number = 3, atoms = [(2, 0, 0)]\<rparr>]\<rparr>, \<lparr>chain_id = ''B'', residues = [\<lparr>res_name = CHR ''K'', res_number = 1, atoms = [(5, 0, 0)]\<rparr>]\<rparr>], source = None\<rparr>"
  let ?B = "Ranch_setup (?st\<lparr>self_domains := [Str ''GG''] @ [Model 1 ?el]\<rparr>)"
  have a: "self_multich ?st ! length (filter is_PDBModel [Str ''GG'']) \<noteq> ''yes''"
    by (simp add: is_PDBModel_def)
  have b: "1 < lenChains ?el"
    by (simp add: lenChains_def)
  have c: "self_fixed ?st ! length (filter is_PDBModel [Str ''GG'']) \<noteq> ''yes''"
    by (simp add: is_PDBModel_def)
  have d: "self_chains ?st 1 = Some (ChainList [''A''])"
    by simp
  have e: "map_sum id (\<lambda>s. (self_sequence s, length (self_doms_in s), map snd (self_embedded s))) ?B
           = Inr (''GGGAKS'', 1, [4])"
    by code_simp
  obtain sB where sB: "?B = Inr sB" and p: "self_sequence sB = ''GGGAKS''"
    "length (self_doms_in sB) = 1" "map snd (self_embedded sB) = [4]"
    using e by (cases ?B) auto
  have l: "[Str ''GG''] @ Model 1 ?el # [Other, Str ''XX''] = [Str ''GG'', Model 1 ?el, Other, Str ''XX'']"
    by simp
  have "Ranch_setup (?st\<lparr>self_domains := [Str ''GG''] @ Model 1 ?el # [Other, Str ''XX'']\<rparr>)
        = map_sum id (\<lambda>s. s\<lparr>self_domains := [Str ''GG''] @ Model 1 ?el # [Other, Str ''XX'']\<rparr>) ?B"
    using setup_break [OF a b c d, of "[Other, Str ''XX'']"] by (rule conjunct1)
  then have "Ranch_setup (?st\<lparr>self_domains := [Str ''GG'', Model 1 ?el, Other, Str ''XX'']\<rparr>)
        = Inr (sB\<lparr>self_domains := [Str ''GG'', Model 1 ?el, Other, Str ''XX'']\<rparr>)"
    unfolding l sB by simp
  then show ?thesis using p by simp
qed

section \<open>The check of the embedded entries\<close>

lemma takeResidues_ok:
  "\<forall>r \<in> set rs. r < lenResidues m \<Longrightarrow> \<exists>t. takeResidues m rs = Inr t"
  using takeResidues_rows by blast

lemma slice_match_range:
  assumes "py_slice (sequence full) i (i + length s) = s" and "r \<in> set [i ..< i + length s]"
  shows "r < lenResidues full"
proof -
  have "length (py_slice (sequence full) i (i + length s)) = length s"
    using assms(1) by simp
  then have "min (length s) (length (sequence full) - i) = length s"
    by (simp add: py_slice_def)
  then have "i + length s \<le> length (sequence full)"
    using assms(2) by auto
  then show ?thesis using assms(2) by (simp add: lenResidues_def sequence_def)
qed

lemma collect_embedded_error:
  "collect_embedded full emb r ind = Inl e \<Longrightarrow>
     e = TypeError \<and>
     (\<exists>(dm, i_start) \<in> set emb.
        py_slice (sequence full) i_start (i_start + length (sequence dm)) \<noteq> sequence dm)"
proof (induction emb arbitrary: r ind)
  case Nil
  then show ?case by simp
next
  case (Cons x emb)
  obtain dm i_start where x: "x = (dm, i_start)" by (cases x)
  show ?case
  proof (cases "py_slice (sequence full) i_start (i_start + length (sequence dm)) = sequence dm")
    case True
    then have "\<forall>r \<in> set [i_start ..< i_start + length (sequence dm)]. r < lenResidues full"
      using slice_match_range by blast
    then obtain t where t: "takeResidues full [i_start ..< i_start + length (sequence dm)] = Inr t"
      using takeResidues_ok by blast
    then have "collect_embedded full emb (concat_m r [t])
                 (ind @ [(i_start, i_start + length (sequence dm))]) = Inl e"
      using Cons.prems True by (simp add: x Let_def)
    then show ?thesis using Cons.IH by (auto simp: x)
  next
    case False
    then show ?thesis using Cons.prems by (auto simp: x Let_def)
  qed
qed

lemma collect_embedded_mismatch:
  "\<exists>(dm, i_start) \<in> set emb.
      py_slice (sequence full) i_start (i_start + length (sequence dm)) \<noteq> sequence dm \<Longrightarrow>
   collect_embedded full emb r ind = Inl TypeError"
proof (induction emb arbitrary: r ind)
  case Nil
  then show ?case by simp
next
  case (Cons x emb)
  obtain dm i_start where x: "x = (dm, i_start)" by (cases x)
  show ?case
  proof (cases "py_slice (sequence full) i_start (i_start + length (sequence dm)) = sequence dm")
    case True
    then have "\<forall>r \<in> set [i_start ..< i_start + length (sequence dm)]. r < lenResidues full"
      using slice_match_range by blast
    then obtain t where t: "takeResidues full [i_start ..< i_start + length (sequence dm)] = Inr t"
      using takeResidues_ok by blast
    have "\<exists>(dm, i_start) \<in> set emb.
            py_slice (sequence full) i_start (i_start + length (sequence dm)) \<noteq> sequence dm"
      using Cons.prems True by (auto simp: x)
    then have "collect_embedded full emb (concat_m r [t])
                 (ind @ [(i_start, i_start + length (sequence dm))]) = Inl TypeError"
      by (rule Cons.IH)
    then show ?thesis using True t by (simp add: x Let_def)
  next
    case False
    then show ?thesis by (simp add: x Let_def)
  qed
qed

lemma take_m_error: "take_m m idx = Inl e \<Longrightarrow> e = IndexError"
  by (auto simp: take_m_def split: if_splits)

lemma remove_m_error: "remove_m m idx = Inl e \<Longrightarrow> e = IndexError"
  by (auto simp: remove_m_def take_m_error split: if_splits)

lemma remove_embedded_error: "remove_embedded full es = (f, Some e) \<Longrightarrow> e = IndexError"
proof (induction es arbitrary: full)
  case Nil
  then show ?case by simp
next
  case (Cons x es)
  obtain a b where x: "x = (a, b)" by (cases x)
  show ?case
    using Cons.prems Cons.IH
    by (auto simp: x py_index_def remove_m_error split: sum.splits if_splits)
qed

lemma merge_all_error: "merge_all n full = (f, Some e) \<Longrightarrow> e = PDBError"
proof (induction n arbitrary: full)
  case 0
  then show ?case by simp
next
  case (Suc n)
  then show ?case
    by (auto simp: mergeChains_def split: sum.splits if_splits)
qed

text \<open>
  C8. \<open>Ranch.extract_embedded\<close> raises \<open>TypeError\<close> exactly when for some entry
  \<open>(dom, i_start)\<close> of the dictionary the slice
  \<open>full.sequence()[i_start : i_start + len(dom.sequence())]\<close> differs from
  \<open>dom.sequence()\<close>; and when it raises \<open>TypeError\<close>, the object \<open>full\<close> is in the state
  in which it was passed: the removals only start after every entry has been checked.
\<close>

theorem extract_embedded_TypeError:
  "(snd (extract_embedded full embedded) = Inl TypeError \<longleftrightarrow>
      (\<exists>(dm, i_start) \<in> set embedded.
         py_slice (sequence full) i_start (i_start + length (sequence dm)) \<noteq> sequence dm))
   \<and> (snd (extract_embedded full embedded) = Inl TypeError \<longrightarrow>
        fst (extract_embedded full embedded) = full)"
proof -
  let ?mis = "\<exists>(dm, i_start) \<in> set embedded.
         py_slice (sequence full) i_start (i_start + length (sequence dm)) \<noteq> sequence dm"
  show ?thesis
  proof (cases "collect_embedded full embedded empty_model []")
    case (Inl e)
    then have "e = TypeError" and ?mis
      using collect_embedded_error by blast+
    then show ?thesis using Inl by (simp add: extract_embedded_def)
  next
    case (Inr p)
    obtain r ind where p: "p = (r, ind)" by (cases p)
    have nm: "\<not> ?mis"
      using collect_embedded_mismatch [of embedded full empty_model "[]"] Inr by auto
    have "snd (extract_embedded full embedded) \<noteq> Inl TypeError"
      using Inr p
      by (auto simp: extract_embedded_def Let_def
               dest: remove_embedded_error merge_all_error
               split: prod.splits option.splits)
    then show ?thesis using nm by blast
  qed
qed

theorem extract_embedded_TypeError_witness:
  "extract_embedded \<lparr>chains = [\<lparr>chain_id = ''A'', residues = [\<lparr>res_name = CHR ''G'', res_number = 7, atoms = [(0, 0, 0)]\<rparr>]\<rparr>], source = None\<rparr> [(\<lparr>chains = [\<lparr>chain_id = ''A'', residues = [\<lparr>res_name = CHR ''G'', res_number = 7, atoms = [(0, 0, 0)]\<rparr>]\<rparr>], source = None\<rparr>, 5)] = (\<lparr>chains = [\<lparr>chain_id = ''A'', residues = [\<lparr>res_name = CHR ''G'', res_number = 7, atoms = [(0, 0, 0)]\<rparr>]\<rparr>], source = None\<rparr>, Inl TypeError)
   \<and> snd (extract_embedded \<lparr>chains = [\<lparr>chain_id = ''A'', residues = [\<lparr>res_name = CHR ''G'', res_number = 7, atoms = [(0, 0, 0)]\<rparr>]\<rparr>], source = None\<rparr> [(\<lparr>chains = [\<lparr>chain_id = ''A'', residues = [\<lparr>res_name = CHR ''G'', res_number = 7, atoms = [(0, 0, 0)]\<rparr>]\<rparr>], source = None\<rparr>, 0)]) \<noteq> Inl TypeError"
proof -
  let ?m = "\<lparr>chains = [\<lparr>chain_id = ''A'', residues = [\<lparr>res_name = CHR ''G'', res_number = 7, atoms = [(0, 0, 0)]\<rparr>]\<rparr>], source = None\<rparr>"
  have s: "sequence ?m = ''G''"
    by (simp add: sequence_def all_residues_def)
  have mis: "\<exists>(dm, i_start) \<in> set [(?m, 5)].
               py_slice (sequence ?m) i_start (i_start + length (sequence dm)) \<noteq> sequence dm"
    by (simp add: s py_slice_def)
  have ok: "\<not> (\<exists>(dm, i_start) \<in> set [(?m, 0)].
               py_slice (sequence ?m) i_start (i_start + length (sequence dm)) \<noteq> sequence dm)"
    by (simp add: s py_slice_def)
  note t = extract_embedded_TypeError [of ?m "[(?m, 5)]"]
  have a: "snd (extract_embedded ?m [(?m, 5)]) = Inl TypeError"
    using t [THEN conjunct1] mis by blast
  then have b: "fst (extract_embedded ?m [(?m, 5)]) = ?m"
    using t [THEN conjunct2] by blast
  have c: "snd (extract_embedded ?m [(?m, 0)]) \<noteq> Inl TypeError"
    using extract_embedded_TypeError [of ?m "[(?m, 0)]", THEN conjunct1] ok by blast
  show ?thesis using a b c by (simp add: prod_eq_iff)
qed

section \<open>Embedding\<close>

lemma bindE_assoc: "bindE (bindE x f) g = bindE x (\<lambda>v. bindE (f v) g)"
  by (cases x) simp_all

lemma residues_mk_chain [simp]: "residues (mk_chain g) = snd g"
  by (cases g) (auto simp: mk_chain_def)

lemma res_rows_nth_snd: "r < lenResidues m \<Longrightarrow> snd (res_rows m ! r) = all_residues m ! r"
  using map_snd_res_rows [of m] by (metis length_res_rows nth_map)

lemma takeResidues_residues:
  assumes "wf_model m" and "\<forall>r \<in> set rs. r < lenResidues m" and "distinct_adj rs"
  shows "\<exists>t. takeResidues m rs = Inr t \<and> all_residues t = map ((!) (all_residues m)) rs
             \<and> source t = source m"
proof -
  let ?X = "map ((!) (res_rows m)) rs"
  let ?t = "\<lparr>chains = map mk_chain (group_adj ?X), source = source m\<rparr>"
  have t: "takeResidues m rs = Inr ?t" using assms by (rule takeResidues_eq)
  have "all_residues ?t = concat (map snd (group_adj ?X))"
    by (simp add: all_residues_def comp_def)
  also have "\<dots> = map snd ?X" by (rule concat_group_adj)
  also have "\<dots> = map ((!) (all_residues m)) rs"
    using assms(2) by (simp add: res_rows_nth_snd)
  finally show ?thesis using t by simp
qed

lemma distinct_adj_upt [simp]: "distinct_adj [i ..< j]"
  by (auto simp: distinct_adj_conv_nth)

lemma map_nth_upt_drop: "map ((!) xs) [i ..< length xs] = drop i xs"
  by (rule nth_equalityI) simp_all

lemma map_nth_upt_take: "j \<le> length xs \<Longrightarrow> map ((!) xs) [0 ..< j] = take j xs"
  by (rule nth_equalityI) simp_all

lemma all_residues_concat2 [simp]: "all_residues (concat2 a b) = all_residues a @ all_residues b"
  by (simp add: all_residues_def concat2_def)

lemma sequence_concat2 [simp]: "sequence (concat2 a b) = sequence a @ sequence b"
  by (simp add: sequence_def)

lemma embed_takeResidues:
  "embed dm e = bindE (takeResidues dm [0, 1]) (\<lambda>first.
                bindE (takeResidues dm [2 ..< lenResidues dm]) (\<lambda>last.
                Inr (concat_m first [e, last])))"
  by (simp add: embed_def takeResidues_def bindE_assoc)




section \<open>The round trip of embedding and extraction\<close>

lemma upt_split: "a \<le> b \<Longrightarrow> b \<le> c \<Longrightarrow> [a ..< c] = [a ..< b] @ [b ..< c]"
  using upt_add_eq_append [of a b "c - b"] by simp

lemma group_adj_nonempty: "\<forall>g \<in> set (group_adj xs). snd g \<noteq> []"
proof (induction xs)
  case Nil
  then show ?case by simp
next
  case (Cons x xs)
  obtain k v where x: "x = (k, v)" by (cases x)
  show ?case
  proof (cases "group_adj xs")
    case Nil
    then show ?thesis by (simp add: x)
  next
    case (Cons h hs)
    obtain k' vs where h: "h = (k', vs)" by (cases h)
    have ih: "\<forall>g \<in> set hs. snd g \<noteq> []" "vs \<noteq> []"
      using Cons.IH Cons h by auto
    show ?thesis
    proof (cases "k = k'")
      case True
      then have "group_adj (x # xs) = (k, v # vs) # hs" by (simp add: x Cons h)
      then show ?thesis using ih by simp
    next
      case False
      then have "group_adj (x # xs) = (k, [v]) # (k', vs) # hs" by (simp add: x Cons h)
      then show ?thesis using ih by simp
    qed
  qed
qed

lemma wf_model_alt:
  "wf_model m \<longleftrightarrow> (\<forall>c \<in> set (chains m). residues c \<noteq> []) \<and> (\<forall>r \<in> set (all_residues m). atoms r \<noteq> [])"
  by (auto simp: wf_model_def all_residues_def)

lemma wf_concat2 [simp]: "wf_model (concat2 a b) \<longleftrightarrow> wf_model a \<and> wf_model b"
  by (auto simp: wf_model_def concat2_def)

lemma wf_empty_model [simp]: "wf_model empty_model"
  by (simp add: wf_model_def empty_model_def)

lemma wf_takeResidues:
  assumes "wf_model m" and "\<forall>r \<in> set rs. r < lenResidues m" and "distinct_adj rs"
    and "takeResidues m rs = Inr t"
  shows "wf_model t"
proof -
  let ?X = "map ((!) (res_rows m)) rs"
  have t: "t = \<lparr>chains = map mk_chain (group_adj ?X), source = source m\<rparr>"
    using takeResidues_eq [OF assms(1,2,3)] assms(4) by simp
  have c: "\<forall>c \<in> set (chains t). residues c \<noteq> []"
    using group_adj_nonempty [of ?X] by (simp add: t)
  obtain t' where "takeResidues m rs = Inr t'" and ar: "all_residues t' = map ((!) (all_residues m)) rs"
    using takeResidues_residues [OF assms(1,2,3)] by blast
  then have "all_residues t = map ((!) (all_residues m)) rs" using assms(4) by simp
  then have "\<forall>r \<in> set (all_residues t). atoms r \<noteq> []"
    using assms(1,2) wf_atoms_nonempty by auto
  then show ?thesis using c by (simp add: wf_model_alt)
qed

lemma offs_Suc: "r < length xss \<Longrightarrow> offs xss (Suc r) = offs xss r + length (xss ! r)"
  by (simp add: offs_def take_Suc_conv_app_nth)

lemma offs_mono: "i \<le> j \<Longrightarrow> offs xss i \<le> offs xss j"
proof (induction j)
  case 0
  then show ?case by simp
next
  case (Suc j)
  show ?case
  proof (cases "i = Suc j")
    case True
    then show ?thesis by simp
  next
    case False
    then have "offs xss i \<le> offs xss j" using Suc by simp
    moreover have "offs xss j \<le> offs xss (Suc j)"
      by (cases "j < length xss") (simp_all add: offs_Suc, simp add: offs_def)
    ultimately show ?thesis by simp
  qed
qed

lemma offs_total: "offs xss (length xss) = length (concat xss)"
  by (simp add: offs_def length_concat)

lemma ranges_concat:
  assumes "i \<le> j" and "j \<le> length xss"
  shows "concat (map (\<lambda>r. [offs xss r ..< offs xss r + length (xss ! r)]) [i ..< j])
         = [offs xss i ..< offs xss j]"
  using assms
proof (induction j)
  case 0
  then show ?case by simp
next
  case (Suc j)
  show ?case
  proof (cases "i = Suc j")
    case True
    then show ?thesis by simp
  next
    case False
    then have ij: "i \<le> j" using Suc.prems by simp
    have j: "j < length xss" using Suc.prems by simp
    have ih: "concat (map (\<lambda>r. [offs xss r ..< offs xss r + length (xss ! r)]) [i ..< j])
              = [offs xss i ..< offs xss j]"
      using Suc.IH ij j by simp
    have "[offs xss i ..< offs xss j] @ [offs xss j ..< offs xss j + length (xss ! j)]
          = [offs xss i ..< offs xss j + length (xss ! j)]"
      by (rule upt_split [symmetric]) (simp_all add: offs_mono [OF ij])
    then show ?thesis using ij ih by (simp add: offs_Suc j)
  qed
qed

lemma filter_not_range:
  assumes "a \<le> b" and "b \<le> n"
  shows "filter (\<lambda>i. i \<notin> set [a ..< b]) [0 ..< n] = [0 ..< a] @ [b ..< n]"
proof -
  have "[0 ..< n] = [0 ..< a] @ [a ..< b] @ [b ..< n]"
  proof -
    have "[0 ..< n] = [0 ..< a] @ [a ..< n]" using assms by (intro upt_split) simp_all
    moreover have "[a ..< n] = [a ..< b] @ [b ..< n]" using assms by (intro upt_split)
    ultimately show ?thesis by (simp only:)
  qed
  then have "filter (\<lambda>i. i \<notin> set [a ..< b]) [0 ..< n]
             = filter (\<lambda>i. i \<notin> set [a ..< b]) [0 ..< a] @ filter (\<lambda>i. i \<notin> set [a ..< b]) [a ..< b]
               @ filter (\<lambda>i. i \<notin> set [a ..< b]) [b ..< n]"
    by (metis filter_append)
  moreover have "filter (\<lambda>i. i \<notin> set [a ..< b]) [0 ..< a] = [0 ..< a]"
    by (rule filter_True) auto
  moreover have "filter (\<lambda>i. i \<notin> set [a ..< b]) [a ..< b] = []"
    by (rule filter_False) auto
  moreover have "filter (\<lambda>i. i \<notin> set [a ..< b]) [b ..< n] = [b ..< n]"
    by (rule filter_True) auto
  ultimately show ?thesis by simp
qed

lemma lenAtoms_blocks: "lenAtoms m = length (concat (blocks (resG m)))"
  by (metis atom_rows_expand expand_blocks length_atom_rows)

lemma remove_residue_range:
  assumes "i \<le> j" and "j < lenResidues m"
  shows "remove_m m [resIndex m ! i ..< resIndex m ! j]
         = takeResidues m ([0 ..< i] @ [j ..< lenResidues m])"
proof -
  let ?B = "blocks (resG m)"
  let ?L = "lenResidues m"
  let ?rng = "\<lambda>r. [offs ?B r ..< offs ?B r + length (?B ! r)]"
  have L: "length ?B = ?L" by simp
  have a: "resIndex m ! i = offs ?B i" using assms by (simp add: resIndex_offs)
  have b: "resIndex m ! j = offs ?B j" using assms by (simp add: resIndex_offs)
  have ab: "offs ?B i \<le> offs ?B j" using assms(1) by (rule offs_mono)
  have bn: "offs ?B j \<le> lenAtoms m"
    using offs_mono [of j ?L ?B] assms(2) by (simp add: lenAtoms_blocks offs_total [symmetric])
  have guard: "\<forall>k \<in> set [offs ?B i ..< offs ?B j]. k < lenAtoms m"
    using bn by auto
  have keep: "filter (\<lambda>k. k \<notin> set [offs ?B i ..< offs ?B j]) [0 ..< lenAtoms m]
              = [0 ..< offs ?B i] @ [offs ?B j ..< lenAtoms m]"
    using ab bn by (rule filter_not_range)
  have r1: "concat (map ?rng [0 ..< i]) = [offs ?B 0 ..< offs ?B i]"
    using assms by (intro ranges_concat) simp_all
  have r2: "concat (map ?rng [j ..< ?L]) = [offs ?B j ..< offs ?B ?L]"
    using assms by (intro ranges_concat) simp_all
  have o0: "offs ?B 0 = 0" by (simp add: offs_def)
  have oL: "offs ?B ?L = lenAtoms m"
    using offs_total [of ?B] by (simp add: lenAtoms_blocks)
  have idx: "res2atomIndices m ([0 ..< i] @ [j ..< ?L])
             = Inr ([0 ..< offs ?B i] @ [offs ?B j ..< lenAtoms m])"
  proof -
    have "\<forall>r \<in> set ([0 ..< i] @ [j ..< ?L]). r < ?L" using assms by auto
    then have "res2atomIndices m ([0 ..< i] @ [j ..< ?L])
               = Inr (concat (map ?rng ([0 ..< i] @ [j ..< ?L])))"
      by (rule res2atomIndices_eq)
    also have "concat (map ?rng ([0 ..< i] @ [j ..< ?L]))
               = concat (map ?rng [0 ..< i]) @ concat (map ?rng [j ..< ?L])"
      by simp
    finally show ?thesis by (simp only: r1 r2 o0 oL)
  qed
  have "remove_m m [offs ?B i ..< offs ?B j]
        = take_m m ([0 ..< offs ?B i] @ [offs ?B j ..< lenAtoms m])"
    by (simp only: remove_m_def keep if_P [OF guard])
  also have "\<dots> = takeResidues m ([0 ..< i] @ [j ..< ?L])"
    by (simp only: takeResidues_def idx bindE_Inr)
  finally show ?thesis by (simp only: a b)
qed

lemma all_residues_merge:
  "mergeChains m 0 = Inr m' \<Longrightarrow>
     all_residues m' = all_residues m \<and> lenChains m' = lenChains m - 1 \<and> source m' = source m"
proof -
  assume a: "mergeChains m 0 = Inr m'"
  then have l: "1 < lenChains m" by (auto simp: mergeChains_def split: if_splits)
  then obtain c0 c1 cs where cs: "chains m = c0 # c1 # cs"
    by (cases "chains m"; cases "tl (chains m)") (auto simp: lenChains_def)
  have "m' = m\<lparr>chains := \<lparr>chain_id = chain_id c0, residues = residues c0 @ residues c1\<rparr> # cs\<rparr>"
    using a l by (simp add: mergeChains_def cs)
  then show ?thesis by (simp add: all_residues_def lenChains_def cs)
qed

lemma merge_all_ok:
  "k < lenChains m \<Longrightarrow>
     \<exists>m'. merge_all k m = (m', None) \<and> all_residues m' = all_residues m
          \<and> lenChains m' = lenChains m - k \<and> source m' = source m"
proof (induction k arbitrary: m)
  case 0
  then show ?case by simp
next
  case (Suc k)
  then have "0 + 1 < lenChains m" by simp
  then obtain m1 where m1: "mergeChains m 0 = Inr m1"
    by (simp add: mergeChains_def)
  have p: "all_residues m1 = all_residues m" "lenChains m1 = lenChains m - 1" "source m1 = source m"
    using all_residues_merge [OF m1] by simp_all
  then have "k < lenChains m1" using Suc.prems by simp
  then obtain m' where "merge_all k m1 = (m', None)" "all_residues m' = all_residues m1"
    "lenChains m' = lenChains m1 - k" "source m' = source m1"
    using Suc.IH by blast
  then show ?case using m1 p by simp
qed

lemma sequence_addChainId [simp]: "sequence (addChainId m) = sequence m"
proof -
  have "map residues (map (\<lambda>(k, c). c\<lparr>chain_id := chain_letter k\<rparr>) (enumerate 0 (chains m)))
        = map residues (chains m)"
    by (auto simp: enumerate_eq_zip intro!: nth_equalityI)
  then show ?thesis by (simp add: sequence_def all_residues_def addChainId_def)
qed

lemma residues_addChainId:
  "map residues (chains (addChainId m)) = map residues (chains m)"
  by (auto simp: addChainId_def enumerate_eq_zip intro!: nth_equalityI)

lemma sorted_reverse_single [simp]: "sorted_reverse [x] = [x]"
  by (simp add: sorted_reverse_def)

lemma enumerate_shift:
  "enumerate k xs = map (\<lambda>(i, x). (i + k, x)) (enumerate 0 xs)"
  by (rule nth_equalityI) (simp_all add: nth_enumerate_eq add.commute)

lemma chG_concat2:
  "chG (concat2 a b) = chG a @ map (\<lambda>((c, cid), rs). ((c + lenChains a, cid), rs)) (chG b)"
proof -
  have "enumerate (length (chains a)) (chains b)
        = map (\<lambda>(i, x). (i + length (chains a), x)) (enumerate 0 (chains b))"
    by (rule enumerate_shift)
  then show ?thesis
    by (simp add: chG_def concat2_def enumerate_append_eq lenChains_def split_def)
qed

lemma expand_append: "expand (xs @ ys) = expand xs @ expand ys"
  by (simp add: expand_def)

lemma length_expand_chG: "length (expand (chG m)) = lenResidues m"
  using length_res_rows [of m] by (simp only: res_rows_expand)

lemma nth_middle:
  "map ((!) (A @ B @ C)) [length A ..< length A + length B] = B"
  by (rule nth_equalityI) (simp_all add: nth_append)

lemma fst_fst_chG: "map (\<lambda>g. fst (fst g)) (chG m) = [0 ..< lenChains m]"
  by (rule nth_equalityI) (simp_all add: chG_def lenChains_def nth_enumerate_eq split_def)

lemma chG_nonempty: "wf_model m \<Longrightarrow> \<forall>g \<in> set (chG m). snd g \<noteq> []"
proof -
  assume "wf_model m"
  then have "\<forall>rs \<in> set (map snd (chG m)). rs \<noteq> []"
    by (auto simp: map_snd_chG wf_model_def)
  then show ?thesis by auto
qed

lemma mk_chain_chG: "map mk_chain (map (\<lambda>((c, cid), rs). ((f c, cid), rs)) (chG m)) = chains m"
  by (rule nth_equalityI) (simp_all add: chG_def mk_chain_def nth_enumerate_eq split_def)

lemma distinct_distinct_adj: "distinct xs \<Longrightarrow> distinct_adj xs"
proof (induction xs)
  case Nil
  then show ?case by simp
next
  case (Cons x xs)
  then show ?case by (cases xs) auto
qed

lemma group_adj_shift_chG:
  assumes "wf_model m"
  shows "group_adj (expand (map (\<lambda>((c, cid), rs). ((c + k, cid), rs)) (chG m)))
         = map (\<lambda>((c, cid), rs). ((c + k, cid), rs)) (chG m)"
proof (rule group_adj_expand)
  let ?S = "map (\<lambda>((c, cid), rs). ((c + k, cid), rs)) (chG m)"
  show "\<forall>g \<in> set ?S. snd g \<noteq> []"
    using chG_nonempty [OF assms] by (auto simp: split_def)
  have "map fst (map fst ?S) = map (\<lambda>c. c + k) (map (\<lambda>g. fst (fst g)) (chG m))"
    by (simp add: split_def)
  also have "\<dots> = map (\<lambda>c. c + k) [0 ..< lenChains m]" by (simp only: fst_fst_chG)
  finally have "distinct (map fst (map fst ?S))" by (simp add: distinct_map inj_on_def)
  then have "distinct (map fst ?S)" by (simp only: distinct_map [of fst "map fst ?S"])
  then show "distinct_adj (map fst ?S)" by (rule distinct_distinct_adj)
qed

lemma lenResidues_concat2 [simp]: "lenResidues (concat2 a b) = lenResidues a + lenResidues b"
  by (simp add: lenResidues_def)

lemma source_concat2 [simp]: "source (concat2 a b) = None"
  by (simp add: concat2_def)

lemma takeResidues_middle:
  assumes "wf_model a" and "wf_model e" and "wf_model c"
  shows "takeResidues (concat2 (concat2 a e) c) [lenResidues a ..< lenResidues a + lenResidues e]
         = Inr \<lparr>chains = chains e, source = None\<rparr>"
proof -
  let ?full = "concat2 (concat2 a e) c"
  let ?sh = "\<lambda>k. map (\<lambda>((c, cid), rs). ((c + k, cid), rs :: residue list))"
  let ?A = "expand (chG a)"
  let ?B = "expand (?sh (lenChains a) (chG e))"
  let ?C = "expand (?sh (lenChains (concat2 a e)) (chG c))"
  have wf: "wf_model ?full" using assms by simp
  have rr: "res_rows ?full = ?A @ ?B @ ?C"
    by (simp only: res_rows_expand chG_concat2 expand_append append_assoc)
  have lA: "length ?A = lenResidues a" by (rule length_expand_chG)
  have "map snd ?B = map snd (expand (chG e))"
    by (simp add: map_snd_expand split_def comp_def)
  then have "length (map snd ?B) = length (map snd (expand (chG e)))" by simp
  then have lB: "length ?B = lenResidues e" by (simp add: length_expand_chG)
  have sel: "map ((!) (res_rows ?full)) [lenResidues a ..< lenResidues a + lenResidues e] = ?B"
    using nth_middle [of ?A ?B ?C] by (simp only: rr lA lB)
  have rng: "\<forall>r \<in> set [lenResidues a ..< lenResidues a + lenResidues e]. r < lenResidues ?full"
    by simp
  have "takeResidues ?full [lenResidues a ..< lenResidues a + lenResidues e]
        = Inr \<lparr>chains = map mk_chain (group_adj ?B), source = source ?full\<rparr>"
    using takeResidues_eq [OF wf rng distinct_adj_upt] by (simp only: sel)
  also have "group_adj ?B = ?sh (lenChains a) (chG e)"
    using assms(2) by (rule group_adj_shift_chG)
  also have "map mk_chain (?sh (lenChains a) (chG e)) = chains e"
    by (rule mk_chain_chG)
  finally show ?thesis by simp
qed

lemma remove_middle:
  assumes "wf_model m" and "i \<le> j" and "j < lenResidues m"
  shows "\<exists>t. remove_m m [resIndex m ! i ..< resIndex m ! j] = Inr t
           \<and> all_residues t = take i (all_residues m) @ drop j (all_residues m)
           \<and> wf_model t"
proof -
  let ?rs = "[0 ..< i] @ [j ..< lenResidues m]"
  have rng: "\<forall>r \<in> set ?rs. r < lenResidues m" using assms by auto
  have "distinct ?rs" using assms by auto
  then have da: "distinct_adj ?rs" by (rule distinct_distinct_adj)
  obtain t where t: "takeResidues m ?rs = Inr t"
    and ar: "all_residues t = map ((!) (all_residues m)) ?rs"
    using takeResidues_residues [OF assms(1) rng da] by blast
  have wf: "wf_model t" using assms(1) rng da t by (rule wf_takeResidues)
  have "i \<le> length (all_residues m)" using assms by (simp add: lenResidues_def)
  then have a: "map ((!) (all_residues m)) [0 ..< i] = take i (all_residues m)"
    by (rule map_nth_upt_take)
  have b: "map ((!) (all_residues m)) [j ..< lenResidues m] = drop j (all_residues m)"
    unfolding lenResidues_def by (rule map_nth_upt_drop)
  have "all_residues t = take i (all_residues m) @ drop j (all_residues m)"
    by (simp only: ar map_append a b)
  moreover have "remove_m m [resIndex m ! i ..< resIndex m ! j] = Inr t"
    using remove_residue_range [OF assms(2,3)] t by simp
  ultimately show ?thesis using wf by blast
qed

lemma concat_m_two [simp]: "concat_m a [e, c] = concat2 (concat2 a e) c"
  by simp

lemma all_residues_empty [simp]: "all_residues empty_model = []"
  by (simp add: all_residues_def empty_model_def)

lemma lenChains_pos: "all_residues m \<noteq> [] \<Longrightarrow> 0 < lenChains m"
  by (auto simp: all_residues_def lenChains_def)

lemma length_resIndex [simp]: "length (resIndex m) = lenResidues m"
  by (simp add: resIndex_def lenResidues_def)

lemma length_sequence [simp]: "length (sequence m) = lenResidues m"
  by (simp add: sequence_def lenResidues_def)

lemma embed_parts:
  assumes "wf_model dm" and "2 \<le> lenResidues dm"
  shows "\<exists>first lst. embed dm e = Inr (concat2 (concat2 first e) lst)
           \<and> wf_model first \<and> wf_model lst
           \<and> all_residues first = take 2 (all_residues dm)
           \<and> all_residues lst = drop 2 (all_residues dm)"
proof -
  have r1: "\<forall>r \<in> set [0, 1 :: nat]. r < lenResidues dm" using assms(2) by simp
  have d1: "distinct_adj [0, 1 :: nat]" by simp
  have r2: "\<forall>r \<in> set [2 ..< lenResidues dm]. r < lenResidues dm" by simp
  obtain first where f: "takeResidues dm [0, 1] = Inr first"
    and af: "all_residues first = map ((!) (all_residues dm)) [0, 1]"
    using takeResidues_residues [OF assms(1) r1 d1] by blast
  obtain lst where l: "takeResidues dm [2 ..< lenResidues dm] = Inr lst"
    and al: "all_residues lst = map ((!) (all_residues dm)) [2 ..< lenResidues dm]"
    using takeResidues_residues [OF assms(1) r2 distinct_adj_upt] by blast
  have wf1: "wf_model first" using assms(1) r1 d1 f by (rule wf_takeResidues)
  have wf2: "wf_model lst" using assms(1) r2 distinct_adj_upt l by (rule wf_takeResidues)
  have "[0, 1 :: nat] = [0 ..< 2]" by (simp add: upt_rec)
  moreover have "2 \<le> length (all_residues dm)" using assms(2) by (simp add: lenResidues_def)
  ultimately have a1: "all_residues first = take 2 (all_residues dm)"
    using map_nth_upt_take [of 2 "all_residues dm"] af by simp
  have a2: "all_residues lst = drop 2 (all_residues dm)"
    using al unfolding lenResidues_def by (simp only: map_nth_upt_drop)
  have "embed dm e = Inr (concat2 (concat2 first e) lst)"
    unfolding embed_takeResidues f l by simp
  then show ?thesis using wf1 wf2 a1 a2 by blast
qed

lemma extract_after_embed:
  assumes "wf_model first" and "wf_model e" and "wf_model lst"
    and "lenResidues first = 2" and "0 < lenResidues lst"
  shows "\<exists>c. snd (extract_embedded (concat2 (concat2 first e) lst) [(e, 2)])
           = Inr (addChainId (concat2 (renumberResidues \<lparr>chains = [c], source = None\<rparr>)
                                \<lparr>chains = chains e, source = None\<rparr>))
         \<and> residues c = all_residues first @ all_residues lst"
proof -
  let ?full = "concat2 (concat2 first e) lst"
  let ?n = "length (sequence e)"
  let ?R = "\<lparr>chains = chains e, source = None\<rparr>"
  have wf: "wf_model ?full" using assms by simp
  have n: "?n = lenResidues e" by simp
  have "length (sequence first) = 2" using assms(4) by simp
  then have sl: "py_slice (sequence ?full) 2 (2 + ?n) = sequence e"
    by (simp add: py_slice_def del: length_sequence)
  have tk: "takeResidues ?full [2 ..< 2 + ?n] = Inr ?R"
    using takeResidues_middle [OF assms(1,2,3)] by (simp only: assms(4) n)
  have cR: "concat2 empty_model ?R = ?R" by (simp add: concat2_def empty_model_def)
  have col: "collect_embedded ?full [(e, 2)] empty_model [] = Inr (?R, [(2, 2 + ?n)])"
    by (simp only: collect_embedded.simps Let_def sl tk if_True bindE_Inr concat_m.simps cR
          append_Nil refl simp_thms)
  have j: "2 + ?n < lenResidues ?full" using assms(4,5) by simp
  have i: "2 < lenResidues ?full" using j by simp
  obtain full1 where rm: "remove_m ?full [resIndex ?full ! 2 ..< resIndex ?full ! (2 + ?n)] = Inr full1"
    and a1: "all_residues full1 = take 2 (all_residues ?full) @ drop (2 + ?n) (all_residues ?full)"
    using remove_middle [OF wf _ j, of 2] by auto
  have lf: "length (all_residues first) = 2" using assms(4) by (simp add: lenResidues_def)
  have le: "length (all_residues e) = ?n" by (simp add: lenResidues_def)
  have a1': "all_residues full1 = all_residues first @ all_residues lst"
    using a1 lf le by simp
  have rem: "remove_embedded ?full [(2, 2 + ?n)] = (full1, None)"
    using i j rm by (simp add: py_index_def del: lenResidues_concat2)
  have "all_residues full1 \<noteq> []" using a1' lf by auto
  then have "0 < lenChains full1" by (rule lenChains_pos)
  then have "lenChains full1 - 1 < lenChains full1" by simp
  then obtain full2 where mrg: "merge_all (lenChains full1 - 1) full1 = (full2, None)"
    and a2: "all_residues full2 = all_residues full1"
    and l2: "lenChains full2 = lenChains full1 - (lenChains full1 - 1)"
    and s2: "source full2 = source full1"
    using merge_all_ok by blast
  have "lenChains full2 = 1" using l2 \<open>0 < lenChains full1\<close> by simp
  then obtain c where c: "chains full2 = [c]"
    by (cases "chains full2") (simp_all add: lenChains_def)
  have rc: "residues c = all_residues first @ all_residues lst"
    using a2 a1' by (simp add: all_residues_def c)
  have ch: "chains (renumberResidues full2) = chains (renumberResidues \<lparr>chains = [c], source = None\<rparr>)"
    by (simp add: renumberResidues_def c)
  have "snd (extract_embedded ?full [(e, 2)])
        = Inr (addChainId (concat2 (renumberResidues full2) ?R))"
    by (simp only: extract_embedded_def col sum.case prod.case sorted_reverse_single rem mrg
          option.case Let_def snd_conv concat_m.simps)
  also have "concat2 (renumberResidues full2) ?R
             = concat2 (renumberResidues \<lparr>chains = [c], source = None\<rparr>) ?R"
    by (simp add: concat2_def ch)
  finally show ?thesis using rc by blast
qed

text \<open>
  Claim C1. Embedding a domain and extracting it again is a round trip. Let \<open>dom\<close> be a
  model with at least three residues and \<open>to_embed\<close> any model (both well formed: every
  chain has residues, every residue atoms). Then \<open>embed(dom, to_embed)\<close> returns a model
  \<open>full\<close>, and \<open>extract_embedded(full, {to_embed: 2})\<close> returns a model \<open>res\<close> whose
  sequence is \<open>dom.sequence() + to_embed.sequence()\<close>. Its first chain, named \<open>A\<close>, holds
  all residues of \<open>dom\<close> in their order, numbered from 1; after it come the chains of
  \<open>to_embed\<close>, each with its own residues unchanged, named with the following letters.
  The statement holds for every number of chains of \<open>dom\<close>: for a single-chain \<open>dom\<close>
  the first chain of the result is that chain again.
\<close>

theorem embed_extract_round_trip:
  "wf_model dm \<and> 3 \<le> lenResidues dm \<and> wf_model to_embed \<longrightarrow>
     (\<exists>full res.
        embed dm to_embed = Inr full
      \<and> snd (extract_embedded full [(to_embed, 2)]) = Inr res
      \<and> sequence res = sequence dm @ sequence to_embed
      \<and> chains res
          = \<lparr>chain_id = chain_letter 0,
             residues = map (\<lambda>(i, r). r\<lparr>res_number := 1 + int i\<rparr>) (enumerate 0 (all_residues dm))\<rparr>
            # map (\<lambda>(k, c). c\<lparr>chain_id := chain_letter k\<rparr>) (enumerate 1 (chains to_embed)))"
proof (intro impI, elim conjE)
  assume wf: "wf_model dm" and len: "3 \<le> lenResidues dm" and wfe: "wf_model to_embed"
  have "2 \<le> lenResidues dm" using len by simp
  then obtain first lst where emb: "embed dm to_embed = Inr (concat2 (concat2 first to_embed) lst)"
    and wf1: "wf_model first" and wf2: "wf_model lst"
    and a1: "all_residues first = take 2 (all_residues dm)"
    and a2: "all_residues lst = drop 2 (all_residues dm)"
    using embed_parts [OF wf] by blast
  let ?full = "concat2 (concat2 first to_embed) lst"
  have l1: "lenResidues first = 2" using a1 len by (simp add: lenResidues_def)
  have l2: "0 < lenResidues lst" using a2 len by (simp add: lenResidues_def)
  obtain c where ex: "snd (extract_embedded ?full [(to_embed, 2)])
           = Inr (addChainId (concat2 (renumberResidues \<lparr>chains = [c], source = None\<rparr>)
                                \<lparr>chains = chains to_embed, source = None\<rparr>))"
    and rc: "residues c = all_residues first @ all_residues lst"
    using extract_after_embed [OF wf1 wfe wf2 l1 l2] by blast
  let ?res = "addChainId (concat2 (renumberResidues \<lparr>chains = [c], source = None\<rparr>)
                                \<lparr>chains = chains to_embed, source = None\<rparr>)"
  have rc': "residues c = all_residues dm" using rc a1 a2 by simp
  have sq: "sequence ?res = sequence dm @ sequence to_embed"
  proof -
    have "sequence \<lparr>chains = [c], source = None\<rparr> = sequence dm"
      by (simp add: sequence_def all_residues_def rc' [unfolded all_residues_def])
    moreover have "sequence \<lparr>chains = chains to_embed, source = None\<rparr> = sequence to_embed"
      by (simp add: sequence_def all_residues_def)
    ultimately show ?thesis by simp
  qed
  have ch: "chains ?res
          = \<lparr>chain_id = chain_letter 0,
             residues = map (\<lambda>(i, r). r\<lparr>res_number := 1 + int i\<rparr>) (enumerate 0 (all_residues dm))\<rparr>
            # map (\<lambda>(k, c). c\<lparr>chain_id := chain_letter k\<rparr>) (enumerate 1 (chains to_embed))"
    by (cases c) (simp add: addChainId_def concat2_def renumberResidues_def rc' [symmetric])
  show "\<exists>full res.
        embed dm to_embed = Inr full
      \<and> snd (extract_embedded full [(to_embed, 2)]) = Inr res
      \<and> sequence res = sequence dm @ sequence to_embed
      \<and> chains res
          = \<lparr>chain_id = chain_letter 0,
             residues = map (\<lambda>(i, r). r\<lparr>res_number := 1 + int i\<rparr>) (enumerate 0 (all_residues dm))\<rparr>
            # map (\<lambda>(k, c). c\<lparr>chain_id := chain_letter k\<rparr>) (enumerate 1 (chains to_embed))"
    using emb ex sq ch by (intro exI [of _ ?full] exI [of _ ?res] conjI)
qed

theorem embed_extract_round_trip_witness:
  "\<exists>full res.
     embed \<lparr>chains = [\<lparr>chain_id = ''A'', residues = [\<lparr>res_name = CHR ''G'', res_number = 11, atoms = [(0, 0, 0)]\<rparr>, \<lparr>res_name = CHR ''A'', res_number = 12, atoms = [(1, 0, 0)]\<rparr>, \<lparr>res_name = CHR ''S'', res_number = 13, atoms = [(2, 0, 0)]\<rparr>]\<rparr>], source = None\<rparr>
           \<lparr>chains = [\<lparr>chain_id = ''X'', residues = [\<lparr>res_name = CHR ''K'', res_number = 40, atoms = [(5, 0, 0)]\<rparr>]\<rparr>], source = None\<rparr> = Inr full
   \<and> snd (extract_embedded full [(\<lparr>chains = [\<lparr>chain_id = ''X'', residues = [\<lparr>res_name = CHR ''K'', res_number = 40, atoms = [(5, 0, 0)]\<rparr>]\<rparr>], source = None\<rparr>, 2)]) = Inr res
   \<and> sequence full = ''GAKS''
   \<and> sequence res = ''GASK''
   \<and> chains res = [\<lparr>chain_id = ''A'', residues = [\<lparr>res_name = CHR ''G'', res_number = 1, atoms = [(0, 0, 0)]\<rparr>, \<lparr>res_name = CHR ''A'', res_number = 2, atoms = [(1, 0, 0)]\<rparr>, \<lparr>res_name = CHR ''S'', res_number = 3, atoms = [(2, 0, 0)]\<rparr>]\<rparr>,
                    \<lparr>chain_id = ''B'', residues = [\<lparr>res_name = CHR ''K'', res_number = 40, atoms = [(5, 0, 0)]\<rparr>]\<rparr>]"
proof -
  let ?dm = "\<lparr>chains = [\<lparr>chain_id = ''A'', residues = [\<lparr>res_name = CHR ''G'', res_number = 11, atoms = [(0, 0, 0)]\<rparr>, \<lparr>res_name = CHR ''A'', res_number = 12, atoms = [(1, 0, 0)]\<rparr>, \<lparr>res_name = CHR ''S'', res_number = 13, atoms = [(2, 0, 0)]\<rparr>]\<rparr>], source = None\<rparr>"
  let ?e = "\<lparr>chains = [\<lparr>chain_id = ''X'', residues = [\<lparr>res_name = CHR ''K'', res_number = 40, atoms = [(5, 0, 0)]\<rparr>]\<rparr>], source = None\<rparr>"
  have w: "wf_model ?dm \<and> 3 \<le> lenResidues ?dm \<and> wf_model ?e"
    by (simp add: wf_model_def lenResidues_def all_residues_def)
  have s: "sequence ?dm = ''GAS''" "sequence ?e = ''K''"
    by (simp_all add: sequence_def all_residues_def)
  have l0: "chain_letter 0 = ''A''" by code_simp
  have l1: "chain_letter (Suc 0) = ''B''" by code_simp
  have f: "map_sum id sequence (embed ?dm ?e) = Inr ''GAKS''"
    by code_simp
  obtain full res where 1: "embed ?dm ?e = Inr full"
    and 2: "snd (extract_embedded full [(?e, 2)]) = Inr res"
    and 3: "sequence res = sequence ?dm @ sequence ?e"
    and 4: "chains res
          = \<lparr>chain_id = chain_letter 0,
             residues = map (\<lambda>(i, r). r\<lparr>res_number := 1 + int i\<rparr>) (enumerate 0 (all_residues ?dm))\<rparr>
            # map (\<lambda>(k, c). c\<lparr>chain_id := chain_letter k\<rparr>) (enumerate 1 (chains ?e))"
    using embed_extract_round_trip [of ?dm ?e, THEN mp, OF w] by (elim exE conjE)
  have sq: "sequence res = ''GASK''" using 3 by (simp only: s append.simps)
  have cs: "chains res = [\<lparr>chain_id = ''A'', residues = [\<lparr>res_name = CHR ''G'', res_number = 1, atoms = [(0, 0, 0)]\<rparr>, \<lparr>res_name = CHR ''A'', res_number = 2, atoms = [(1, 0, 0)]\<rparr>, \<lparr>res_name = CHR ''S'', res_number = 3, atoms = [(2, 0, 0)]\<rparr>]\<rparr>,
                    \<lparr>chain_id = ''B'', residues = [\<lparr>res_name = CHR ''K'', res_number = 40, atoms = [(5, 0, 0)]\<rparr>]\<rparr>]"
    by (simp add: 4 all_residues_def l0 l1)
  have 5: "sequence full = ''GAKS''" using f unfolding 1 by (simp only: map_sum.simps sum.inject)
  show ?thesis using 1 2 5 sq cs by (intro exI [of _ full] exI [of _ res] conjI)
qed

end
